theory Spec2Isabelle
  imports Complex_Main "HOL-Library.AList" "HOL-Library.Sublist"
    "HOL-Library.List_Lexorder" "HOL-Library.Product_Lexorder"
begin

section \<open>Python values and text\<close>

text \<open>
  A Python \<open>str\<close> is a sequence of Unicode code points; it is modelled as a list of
  natural numbers.  \<open>str ''abc''\<close> writes an ASCII literal.
\<close>

type_synonym pystr = "nat list"

definition str :: "string \<Rightarrow> pystr" where
  "str s = map of_char s"

text \<open>
  The values that travel through payloads, documents and attribute mappings.
  Floats are modelled by rationals (every float the extractor builds is a small integer).
  A \<open>datetime\<close> is carried by its ISO rendering.
\<close>

datatype pyval =
    PNone
  | PBool bool
  | PInt int
  | PFloat rat
  | PStr pystr
  | PDateTime pystr
  | PList "pyval list"
  | PDict "(pystr \<times> pyval) list"

type_synonym pydict = "(pystr \<times> pyval) list"

datatype error =
    ValueError pystr
  | TypeError
  | KeyError pystr
  | AttributeError
  | ZeroDivisionError

definition bind_err :: "error + 'a \<Rightarrow> ('a \<Rightarrow> error + 'b) \<Rightarrow> error + 'b" where
  "bind_err m f = (case m of Inl e \<Rightarrow> Inl e | Inr x \<Rightarrow> f x)"

subsection \<open>The Unicode database\<close>

text \<open>
  Python's string methods and the \<open>re\<close> module consult the interpreter's Unicode
  database.  On ASCII characters their behaviour is written out below; for code points
  from 128 on, the database is a parameter \<open>U\<close> of the model.  A code point has one
  class: a decimal digit (\<open>\d\<close>), another alphanumeric character (with the decimals and
  the underscore, \<open>\w\<close>), white space (\<open>\s\<close>, \<open>str.strip\<close>), or none of these.
\<close>

datatype uclass = UDecimal | UAlnum | USpace | UOther

record ucd =
  u_class :: "nat \<Rightarrow> uclass"
  u_fold_eq :: "nat \<Rightarrow> nat \<Rightarrow> bool"
  u_lower :: "pystr \<Rightarrow> nat \<Rightarrow> pystr"
  u_upper :: "nat \<Rightarrow> pystr"
  u_digit_value :: "nat \<Rightarrow> nat"

definition ascii_lower :: "nat \<Rightarrow> nat" where
  "ascii_lower c = (if 65 \<le> c \<and> c \<le> 90 then c + 32 else c)"

definition ascii_upper :: "nat \<Rightarrow> nat" where
  "ascii_upper c = (if 97 \<le> c \<and> c \<le> 122 then c - 32 else c)"

definition is_decimal :: "ucd \<Rightarrow> nat \<Rightarrow> bool" where
  "is_decimal U c = (if c < 128 then 48 \<le> c \<and> c \<le> 57 else u_class U c = UDecimal)"

definition is_word :: "ucd \<Rightarrow> nat \<Rightarrow> bool" where
  "is_word U c =
     (if c < 128
      then (48 \<le> c \<and> c \<le> 57) \<or> (65 \<le> c \<and> c \<le> 90) \<or> (97 \<le> c \<and> c \<le> 122) \<or> c = 95
      else u_class U c = UDecimal \<or> u_class U c = UAlnum)"

definition is_space :: "ucd \<Rightarrow> nat \<Rightarrow> bool" where
  "is_space U c =
     (if c < 128
      then (9 \<le> c \<and> c \<le> 13) \<or> (28 \<le> c \<and> c \<le> 32)
      else u_class U c = USpace)"

definition fold_eq :: "ucd \<Rightarrow> nat \<Rightarrow> nat \<Rightarrow> bool" where
  "fold_eq U p c =
     (if p < 128 \<and> c < 128 then ascii_lower c = ascii_lower p else u_fold_eq U p c)"

definition py_lower :: "ucd \<Rightarrow> pystr \<Rightarrow> pystr" where
  "py_lower U t =
     concat (map (\<lambda>(i, c). if c < 128 then [ascii_lower c] else u_lower U t i) (enumerate 0 t))"

definition py_upper :: "ucd \<Rightarrow> pystr \<Rightarrow> pystr" where
  "py_upper U t = concat (map (\<lambda>c. if c < 128 then [ascii_upper c] else u_upper U c) t)"

definition py_strip :: "ucd \<Rightarrow> pystr \<Rightarrow> pystr" where
  "py_strip U t = rev (dropWhile (is_space U) (rev (dropWhile (is_space U) t)))"

definition replace_space_empty :: "pystr \<Rightarrow> pystr" where
  "replace_space_empty t = filter (\<lambda>c. c \<noteq> 32) t"

definition digit_value :: "ucd \<Rightarrow> nat \<Rightarrow> nat" where
  "digit_value U c = (if c < 128 then c - 48 else u_digit_value U c)"

text \<open>
  \<open>float(s)\<close> on a non-empty string of decimal digits, the only strings the extractor
  passes to it.  Python's \<open>float\<close> accepts more (signs, exponents, surrounding blanks);
  any other string is reported here as the \<open>ValueError\<close> that Python raises on a
  string it cannot parse.
\<close>

definition decimal_value :: "ucd \<Rightarrow> pystr \<Rightarrow> nat" where
  "decimal_value U s = foldl (\<lambda>a c. 10 * a + digit_value U c) 0 s"

definition py_float :: "ucd \<Rightarrow> pystr \<Rightarrow> error + rat" where
  "py_float U s =
     (if s \<noteq> [] \<and> list_all (is_decimal U) s
      then Inr (of_nat (decimal_value U s))
      else Inl (ValueError s))"

text \<open>A database that knows ASCII only: no further digits, letters, blanks or case pairs.\<close>

definition ascii_ucd :: ucd where
  "ascii_ucd = \<lparr> u_class = (\<lambda>c. UOther),
     u_fold_eq = (\<lambda>p c. p = c), u_lower = (\<lambda>t i. [t ! i]), u_upper = (\<lambda>c. [c]),
     u_digit_value = (\<lambda>c. 0) \<rparr>"

section \<open>Regular expressions\<close>

text \<open>
  The fragment of Python's \<open>re\<close> syntax that the pattern library uses: literals (with or
  without \<open>IGNORECASE\<close>), character sets, counted repetition of a set (greedy or lazy),
  sequence, alternation, capture groups, \<open>\b\<close> and \<open>$\<close>.
\<close>

datatype cset = CDigit | CWord | CSpace | CChar nat | CRange nat nat | CUnion cset cset

datatype regex =
    Lit bool pystr
  | Set cset
  | Rep cset nat "nat option" bool
  | Seq regex regex
  | Alt regex regex
  | Group nat regex
  | WordB
  | EndS

fun in_cset :: "ucd \<Rightarrow> cset \<Rightarrow> nat \<Rightarrow> bool" where
  "in_cset U CDigit c = is_decimal U c"
| "in_cset U CWord c = is_word U c"
| "in_cset U CSpace c = is_space U c"
| "in_cset U (CChar p) c = (c = p)"
| "in_cset U (CRange lo hi) c = (lo \<le> c \<and> c \<le> hi)"
| "in_cset U (CUnion a b) c = (in_cset U a c \<or> in_cset U b c)"

text \<open>
  The matcher walks the text from left to right.  Its position is the character just
  read (needed by \<open>\b\<close>) and the text still to be read.
\<close>

type_synonym cursor = "nat option \<times> pystr"
type_synonym groups = "(nat \<times> pystr) list"

fun advance :: "nat \<Rightarrow> cursor \<Rightarrow> cursor" where
  "advance 0 cur = cur"
| "advance (Suc n) (prev, []) = (prev, [])"
| "advance (Suc n) (prev, c # cs) = advance n (Some c, cs)"

definition consumed :: "cursor \<Rightarrow> cursor \<Rightarrow> pystr" where
  "consumed cur cur' = take (length (snd cur) - length (snd cur')) (snd cur)"

fun lit_match :: "ucd \<Rightarrow> bool \<Rightarrow> pystr \<Rightarrow> cursor \<Rightarrow> cursor option" where
  "lit_match U ic [] cur = Some cur"
| "lit_match U ic (p # ps) (prev, []) = None"
| "lit_match U ic (p # ps) (prev, c # cs) =
     (if (if ic then fold_eq U p c else c = p) then lit_match U ic ps (Some c, cs) else None)"

definition at_word_boundary :: "ucd \<Rightarrow> cursor \<Rightarrow> bool" where
  "at_word_boundary U cur =
     ((case fst cur of None \<Rightarrow> False | Some c \<Rightarrow> is_word U c) \<noteq>
      (case snd cur of [] \<Rightarrow> False | c # cs \<Rightarrow> is_word U c))"

definition at_end :: "cursor \<Rightarrow> bool" where
  "at_end cur = (snd cur = [] \<or> snd cur = [10])"

fun first_some :: "('a \<Rightarrow> 'r option) \<Rightarrow> 'a list \<Rightarrow> 'r option" where
  "first_some f [] = None"
| "first_some f (x # xs) = (case f x of Some r \<Rightarrow> Some r | None \<Rightarrow> first_some f xs)"

definition rep_lengths :: "ucd \<Rightarrow> cset \<Rightarrow> nat \<Rightarrow> nat option \<Rightarrow> bool \<Rightarrow> pystr \<Rightarrow> nat list" where
  "rep_lengths U cs lo hi greedy rest =
     (let run = length (takeWhile (in_cset U cs) rest);
          n = (case hi of None \<Rightarrow> run | Some h \<Rightarrow> min h run)
      in if greedy then rev [lo..<Suc n] else [lo..<Suc n])"

text \<open>
  A backtracking matcher in continuation style: \<open>k\<close> is what remains to be matched, and
  the first success in the engine's order of preference is the answer.
\<close>

fun rmatch :: "ucd \<Rightarrow> regex \<Rightarrow> cursor \<Rightarrow> groups \<Rightarrow> (cursor \<Rightarrow> groups \<Rightarrow> 'r option) \<Rightarrow> 'r option" where
  "rmatch U (Lit ic ps) cur g k =
     (case lit_match U ic ps cur of None \<Rightarrow> None | Some cur' \<Rightarrow> k cur' g)"
| "rmatch U (Set cs) cur g k =
     (case snd cur of [] \<Rightarrow> None
      | c # rest \<Rightarrow> if in_cset U cs c then k (Some c, rest) g else None)"
| "rmatch U (Rep cs lo hi greedy) cur g k =
     first_some (\<lambda>i. k (advance i cur) g) (rep_lengths U cs lo hi greedy (snd cur))"
| "rmatch U (Seq a b) cur g k = rmatch U a cur g (\<lambda>cur' g'. rmatch U b cur' g' k)"
| "rmatch U (Alt a b) cur g k =
     (case rmatch U a cur g k of Some r \<Rightarrow> Some r | None \<Rightarrow> rmatch U b cur g k)"
| "rmatch U (Group n r) cur g k =
     rmatch U r cur g (\<lambda>cur' g'. k cur' (AList.update n (consumed cur cur') g'))"
| "rmatch U WordB cur g k = (if at_word_boundary U cur then k cur g else None)"
| "rmatch U EndS cur g k = (if at_end cur then k cur g else None)"

text \<open>A match object: the whole match (group 0) and the numbered groups.\<close>

type_synonym rmatch_obj = "pystr \<times> groups"

definition match_here :: "ucd \<Rightarrow> regex \<Rightarrow> cursor \<Rightarrow> rmatch_obj option" where
  "match_here U r cur = rmatch U r cur [] (\<lambda>cur' g. Some (consumed cur cur', g))"

fun search_from :: "ucd \<Rightarrow> regex \<Rightarrow> nat option \<Rightarrow> pystr \<Rightarrow> rmatch_obj option" where
  "search_from U r prev [] = match_here U r (prev, [])"
| "search_from U r prev (c # cs) =
     (case match_here U r (prev, c # cs) of
        Some m \<Rightarrow> Some m
      | None \<Rightarrow> search_from U r (Some c) cs)"

definition search :: "ucd \<Rightarrow> regex \<Rightarrow> pystr \<Rightarrow> rmatch_obj option" where
  "search U r t = search_from U r None t"

definition group :: "rmatch_obj \<Rightarrow> nat \<Rightarrow> pystr option" where
  "group m n = (if n = 0 then Some (fst m) else map_of (snd m) n)"

text \<open>
  What a successful run of the matcher means, read off the expression: the cursor and the
  groups before and after.  The matcher is related to it in the properties section.
\<close>

fun matches :: "ucd \<Rightarrow> regex \<Rightarrow> cursor \<Rightarrow> groups \<Rightarrow> cursor \<Rightarrow> groups \<Rightarrow> bool" where
  "matches U (Lit ic ps) cur g cur' g' = (lit_match U ic ps cur = Some cur' \<and> g' = g)"
| "matches U (Set cs) cur g cur' g' =
     (\<exists>c rest. snd cur = c # rest \<and> in_cset U cs c \<and> cur' = (Some c, rest) \<and> g' = g)"
| "matches U (Rep cs lo hi greedy) cur g cur' g' =
     (\<exists>i. i \<in> set (rep_lengths U cs lo hi greedy (snd cur)) \<and> cur' = advance i cur \<and> g' = g)"
| "matches U (Seq a b) cur g cur' g' =
     (\<exists>cm gm. matches U a cur g cm gm \<and> matches U b cm gm cur' g')"
| "matches U (Alt a b) cur g cur' g' = (matches U a cur g cur' g' \<or> matches U b cur g cur' g')"
| "matches U (Group n r) cur g cur' g' =
     (\<exists>g0. matches U r cur g cur' g0 \<and> g' = AList.update n (consumed cur cur') g0)"
| "matches U WordB cur g cur' g' = (at_word_boundary U cur \<and> cur' = cur \<and> g' = g)"
| "matches U EndS cur g cur' g' = (at_end cur \<and> cur' = cur \<and> g' = g)"

section \<open>Attribute extraction\<close>

subsection \<open>The pattern library\<close>

definition VOLUME_PATTERN :: regex where
  "VOLUME_PATTERN =
     Seq (Group 1 (Rep CDigit 1 (Some 3) True))
       (Seq (Rep CSpace 0 (Some 1) True) (Seq (Group 2 (Lit True (str ''ml''))) WordB))"

definition LENGTH_PATTERN :: regex where
  "LENGTH_PATTERN =
     Seq (Group 1 (Rep CDigit 2 (Some 4) True))
       (Seq (Rep CSpace 0 (Some 1) True) (Seq (Group 2 (Lit True (str ''mm''))) WordB))"

definition GRIT_PATTERN :: regex where
  "GRIT_PATTERN =
     Seq WordB
       (Seq (Group 1 (Seq (Rep CDigit 2 (Some 3) True)
                       (Seq (Lit False (str ''/'')) (Rep CDigit 2 (Some 3) True))))
            WordB)"

definition hex_digit :: cset where
  "hex_digit = CUnion (CRange 48 57) (CUnion (CRange 97 102) (CRange 65 70))"

definition SHADE_PATTERN :: regex where
  "SHADE_PATTERN =
     Seq (Group 1 (Alt (Seq (Lit False (str ''#'')) (Rep hex_digit 2 (Some 4) True))
                       (Seq (Rep (CRange 65 90) 1 (Some 2) True) (Rep CDigit 2 (Some 3) True))))
         WordB"

definition STRENGTH_PATTERN :: regex where
  "STRENGTH_PATTERN =
     Seq (Group 1 (Rep CDigit 2 (Some 3) True))
       (Seq (Rep CSpace 0 (Some 1) True) (Lit False (str ''%'')))"

definition COLLECTION_PATTERN :: regex where
  "COLLECTION_PATTERN =
     Seq (Lit True (str ''colect''))
       (Seq (Group 1 (Alt (Lit True (str ''ia'')) (Lit True (str ''iei''))))
         (Seq (Rep CSpace 1 None True)
           (Seq (Group 2 (Rep (CUnion CWord (CChar 45)) 3 (Some 30) False))
             (Alt (Seq (Rep CSpace 1 None True) (Set CDigit))
                  (Seq (Rep CSpace 0 None True) EndS)))))"

definition FINISH_KEYWORDS :: "pystr list" where
  "FINISH_KEYWORDS =
     [str ''mat'', str ''matte'', str ''gloss'', str ''lucios'', str ''glitter'',
      str ''shimmer'', str ''reflectiv'']"

definition CURING_KEYWORDS :: "pystr list" where
  "CURING_KEYWORDS = [str ''uv/led'', str ''uv led'', str ''uv'', str ''led'']"

definition LIQUID_TYPES :: "pystr list" where
  "LIQUID_TYPES =
     [str ''cleaner'', str ''remover'', str ''aceton'', str ''slip solution'',
      str ''degresant'', str ''primer'']"

definition SCENT_KEYWORDS :: "pystr list" where
  "SCENT_KEYWORDS =
     [str ''lavanda'', str ''lavand'' @ [259], str ''capsuni'',
      str ''c'' @ [259] @ str ''p'' @ [537] @ str ''uni'', str ''vanilie'', str ''cocos'',
      str ''trandafir'']"

definition MATERIAL_KEYWORDS :: "pystr list" where
  "MATERIAL_KEYWORDS =
     [str ''inox'', str ''otel'', str ''o'' @ [539] @ str ''el'', str ''carbon'', str ''abs'',
      str ''plastic'']"

definition SHAPE_KEYWORDS :: "pystr list" where
  "SHAPE_KEYWORDS =
     [str ''oval'', str ''banan'' @ [259], str ''banana'', str ''drept'', str ''straight'',
      str ''half-moon'', str ''semilun'' @ [259]]"

definition COLOR_KEYWORDS :: "pystr list" where
  "COLOR_KEYWORDS =
     [str ''alb'', str ''negru'', str ''rosu'', str ''ro'' @ [537] @ str ''u'', str ''roz'',
      str ''nude'', str ''albastru'', str ''verde'', str ''mov'', str ''galben'',
      str ''portocaliu'', str ''auriu'', str ''argintiu'']"

subsection \<open>The extractor\<close>

definition first_match :: "ucd \<Rightarrow> regex \<Rightarrow> pystr \<Rightarrow> pystr option" where
  "first_match U pattern t = (case search U pattern t of Some m \<Rightarrow> group m 1 | None \<Rightarrow> None)"

fun first_keyword :: "pystr \<Rightarrow> pystr list \<Rightarrow> pystr option" where
  "first_keyword t [] = None"
| "first_keyword t (keyword # keywords) =
     (if sublist keyword t then Some keyword else first_keyword t keywords)"

text \<open>
  \<open>" ".join(filter(None, [name or "", description or ""]))\<close>: the empty parts are
  dropped before joining.
\<close>

definition haystack_of :: "pystr \<Rightarrow> pystr option \<Rightarrow> pystr" where
  "haystack_of name description =
     (let d = (case description of None \<Rightarrow> [] | Some d \<Rightarrow> d)
      in if name = [] then d else if d = [] then name else name @ [32] @ d)"

text \<open>
  One \<open>if x := ...: attributes[key] = ...\<close> statement each.  The walrus test is a
  truth test: an empty string counts as no match.
\<close>

definition set_float :: "ucd \<Rightarrow> pystr \<Rightarrow> pystr option \<Rightarrow> pydict \<Rightarrow> error + pydict" where
  "set_float U key found attributes =
     (case found of
        None \<Rightarrow> Inr attributes
      | Some v \<Rightarrow>
          if v = [] then Inr attributes
          else bind_err (py_float U v) (\<lambda>x. Inr (AList.update key (PFloat x) attributes)))"

definition set_str :: "pystr \<Rightarrow> (pystr \<Rightarrow> pystr) \<Rightarrow> pystr option \<Rightarrow> pydict \<Rightarrow> pydict" where
  "set_str key f found attributes =
     (case found of
        None \<Rightarrow> attributes
      | Some v \<Rightarrow> if v = [] then attributes else AList.update key (PStr (f v)) attributes)"

definition set_shade :: "ucd \<Rightarrow> rmatch_obj option \<Rightarrow> pydict \<Rightarrow> pydict" where
  "set_shade U shade_match attributes =
     (case shade_match of
        None \<Rightarrow> attributes
      | Some m \<Rightarrow> AList.update (str ''attr_shade_code'') (PStr (py_upper U (fst m))) attributes)"

definition set_collection :: "ucd \<Rightarrow> rmatch_obj option \<Rightarrow> pydict \<Rightarrow> error + pydict" where
  "set_collection U collection_match attributes =
     (case collection_match of
        None \<Rightarrow> Inr attributes
      | Some m \<Rightarrow>
          (case group m 2 of
             None \<Rightarrow> Inl AttributeError
           | Some g \<Rightarrow> Inr (AList.update (str ''attr_collection'') (PStr (py_strip U g)) attributes)))"

definition extract_attributes :: "ucd \<Rightarrow> pystr \<Rightarrow> pystr option \<Rightarrow> error + pydict" where
  "extract_attributes U name description =
     (let haystack = haystack_of name description;
          haystack_lower = py_lower U haystack
      in
      bind_err (set_float U (str ''attr_volume_ml'') (first_match U VOLUME_PATTERN haystack) [])
      (\<lambda>attributes.
        let attributes = set_str (str ''attr_grit'') id (first_match U GRIT_PATTERN haystack) attributes;
            attributes = set_shade U (search U SHADE_PATTERN haystack) attributes;
            attributes = set_str (str ''attr_finish'') id
                           (first_keyword haystack_lower FINISH_KEYWORDS) attributes;
            attributes = set_str (str ''attr_curing_type'') (\<lambda>v. py_upper U (replace_space_empty v))
                           (first_keyword haystack_lower CURING_KEYWORDS) attributes;
            attributes = set_str (str ''attr_liquid_type'') id
                           (first_keyword haystack_lower LIQUID_TYPES) attributes;
            attributes = set_str (str ''attr_scent'') id
                           (first_keyword haystack_lower SCENT_KEYWORDS) attributes
        in
        bind_err (set_float U (str ''attr_strength_percent'')
                    (first_match U STRENGTH_PATTERN haystack) attributes)
        (\<lambda>attributes.
          bind_err (set_float U (str ''attr_length_mm'')
                      (first_match U LENGTH_PATTERN haystack) attributes)
          (\<lambda>attributes.
            let attributes = set_str (str ''attr_material'') id
                               (first_keyword haystack_lower MATERIAL_KEYWORDS) attributes;
                attributes = set_str (str ''attr_shape'') id
                               (first_keyword haystack_lower SHAPE_KEYWORDS) attributes;
                attributes = set_str (str ''attr_color_name'') id
                               (first_keyword haystack_lower COLOR_KEYWORDS) attributes
            in set_collection U (search U COLLECTION_PATTERN haystack) attributes))))"

text \<open>
  Vocabulary for the properties: the last character read once \<open>w\<close> has been consumed,
  and the words a literal matches.
\<close>

definition after :: "nat option \<Rightarrow> pystr \<Rightarrow> nat option" where
  "after prev w = (if w = [] then prev else Some (last w))"

definition lit_word :: "ucd \<Rightarrow> bool \<Rightarrow> pystr \<Rightarrow> pystr \<Rightarrow> bool" where
  "lit_word U ic ps w = list_all2 (\<lambda>p c. if ic then fold_eq U p c else c = p) ps w"

fun groups_of :: "regex \<Rightarrow> nat set" where
  "groups_of (Seq a b) = groups_of a \<union> groups_of b"
| "groups_of (Alt a b) = groups_of a \<union> groups_of b"
| "groups_of (Group n r) = insert n (groups_of r)"
| "groups_of r = {}"

text \<open>
  An occurrence of the collection marker in a text, with the token \<open>tok\<close> behind it: the
  marker spelled \<open>colectia\<close> or \<open>colectiei\<close> in any letter case, white space, a token of 3
  to 30 word characters or hyphens, and then either white space and a digit, or nothing
  but white space up to the end of the text.
\<close>

definition collection_occurrence :: "ucd \<Rightarrow> pystr \<Rightarrow> pystr \<Rightarrow> bool" where
  "collection_occurrence U h tok =
     (\<exists>pre mk ws post. h = pre @ mk @ ws @ tok @ post \<and>
        (lit_word U True (str ''colectia'') mk \<or> lit_word U True (str ''colectiei'') mk) \<and>
        ws \<noteq> [] \<and> list_all (is_space U) ws \<and>
        3 \<le> length tok \<and> length tok \<le> 30 \<and> list_all (\<lambda>c. is_word U c \<or> c = 45) tok \<and>
        (list_all (is_space U) post \<or>
         (\<exists>ws' d rest. post = ws' @ d # rest \<and> ws' \<noteq> [] \<and> list_all (is_space U) ws' \<and>
            is_decimal U d)))"



section \<open>The document store\<close>

text \<open>
  The Elasticsearch client as the services use it: \<open>client.index\<close> stores a document under
  an index name and an id, replacing what was there.  The store is the list of its
  documents in the order of their first indexing.
\<close>

type_synonym es_store = "((pystr \<times> pyval) \<times> pydict) list"

definition es_index :: "pystr \<Rightarrow> pyval \<Rightarrow> pydict \<Rightarrow> es_store \<Rightarrow> es_store" where
  "es_index index_name doc_id document store = AList.update (index_name, doc_id) document store"

definition es_get :: "es_store \<Rightarrow> pystr \<Rightarrow> pyval \<Rightarrow> pydict option" where
  "es_get store index_name doc_id = map_of store (index_name, doc_id)"

definition docs_of :: "es_store \<Rightarrow> pystr \<Rightarrow> pydict list" where
  "docs_of store index_name = map snd (filter (\<lambda>((i, d), doc). i = index_name) store)"

text \<open>
  What a call reads from its surroundings: the settings (index names, the product URL
  template), the clock, the random identifier, and two library behaviours that the model
  leaves open: \<open>str.format\<close> on the URL template, and \<open>>\<close> on operands that are neither
  two numbers nor two strings.
\<close>

record env =
  unicode :: ucd
  products_index :: pystr
  supplier_incidents_index :: pystr
  product_url_template :: "pystr option"
  now_iso :: pystr
  utcnow :: pystr
  uuid4_hex12 :: pystr
  format_sku :: "pystr \<Rightarrow> pyval \<Rightarrow> error + pystr"
  gt_other :: "pyval \<Rightarrow> pyval \<Rightarrow> error + bool"

subsection \<open>Python semantics the services rely on\<close>

fun truthy :: "pyval \<Rightarrow> bool" where
  "truthy PNone = False"
| "truthy (PBool b) = b"
| "truthy (PInt i) = (i \<noteq> 0)"
| "truthy (PFloat r) = (r \<noteq> 0)"
| "truthy (PStr s) = (s \<noteq> [])"
| "truthy (PDateTime t) = True"
| "truthy (PList xs) = (xs \<noteq> [])"
| "truthy (PDict d) = (d \<noteq> [])"

definition dict_get :: "pydict \<Rightarrow> pystr \<Rightarrow> pyval \<Rightarrow> pyval" where
  "dict_get d k dflt = (case map_of d k of None \<Rightarrow> dflt | Some v \<Rightarrow> v)"

definition py_or :: "pyval \<Rightarrow> pyval \<Rightarrow> pyval" where
  "py_or a b = (if truthy a then a else b)"

text \<open>\<open>d.update(e)\<close>: the entries of \<open>e\<close> in their order, each replacing or appended.\<close>

definition dict_update :: "pydict \<Rightarrow> pydict \<Rightarrow> pydict" where
  "dict_update d e = fold (\<lambda>(k, v). AList.update k v) e d"

definition drop_none :: "pydict \<Rightarrow> pydict" where
  "drop_none d = filter (\<lambda>(k, v). v \<noteq> PNone) d"

fun number_of :: "pyval \<Rightarrow> rat option" where
  "number_of (PInt i) = Some (of_int i)"
| "number_of (PFloat r) = Some r"
| "number_of (PBool b) = Some (if b then 1 else 0)"
| "number_of v = None"

definition py_gt :: "env \<Rightarrow> pyval \<Rightarrow> pyval \<Rightarrow> error + bool" where
  "py_gt E a b =
     (case (number_of a, number_of b) of
        (Some x, Some y) \<Rightarrow> Inr (x > y)
      | _ \<Rightarrow> (case (a, b) of (PStr s, PStr t) \<Rightarrow> Inr (s > t) | _ \<Rightarrow> gt_other E a b))"

text \<open>
  \<open>" ".join(filter(None, [name or "", description or ""]))\<close> accepts a falsy value of any
  type (it becomes the empty string and is dropped) and raises \<open>TypeError\<close> on a truthy
  value that is not a string.
\<close>

definition text_arg :: "pyval \<Rightarrow> error + pystr" where
  "text_arg v = (if \<not> truthy v then Inr [] else case v of PStr s \<Rightarrow> Inr s | _ \<Rightarrow> Inl TypeError)"

definition extract_attributes_any :: "ucd \<Rightarrow> pyval \<Rightarrow> pyval \<Rightarrow> error + pydict" where
  "extract_attributes_any U name description =
     bind_err (text_arg name) (\<lambda>n.
     bind_err (text_arg description) (\<lambda>d.
       extract_attributes U n (Some d)))"

section \<open>The services\<close>

subsection \<open>Product upsert\<close>

definition product_url_for :: "env \<Rightarrow> pyval \<Rightarrow> error + pyval" where
  "product_url_for E sku =
     (case product_url_template E of
        None \<Rightarrow> Inr PNone
      | Some template \<Rightarrow>
          if template \<noteq> [] \<and> truthy sku
          then bind_err (format_sku E template sku) (\<lambda>u. Inr (PStr u))
          else Inr PNone)"

definition dict_items :: "pyval \<Rightarrow> error + pydict" where
  "dict_items v = (case v of PDict d \<Rightarrow> Inr d | _ \<Rightarrow> Inl AttributeError)"

text \<open>
  A call returns the store it leaves behind together with its result or the exception it
  raised: an exception raised before \<open>client.index\<close> leaves the store as it was.
\<close>

definition upsert_product :: "env \<Rightarrow> es_store \<Rightarrow> pydict \<Rightarrow> es_store \<times> (error + pydict)" where
  "upsert_product E store payload =
     (let base_doc = drop_none payload in
      case map_of base_doc (str ''sku'') of
        None \<Rightarrow> (store, Inl (KeyError (str ''sku'')))
      | Some sku \<Rightarrow>
          let name = dict_get base_doc (str ''name'') (PStr []);
              description = py_or (dict_get base_doc (str ''description_html'') PNone)
                                  (dict_get base_doc (str ''description_short'') PNone);
              base_doc = AList.delete (str ''attributes'') base_doc
          in
          case extract_attributes_any (unicode E) name description of
            Inl e \<Rightarrow> (store, Inl e)
          | Inr derived \<Rightarrow>
              (case dict_items (dict_get payload (str ''attributes'') (PDict [])) of
                 Inl e \<Rightarrow> (store, Inl e)
               | Inr items \<Rightarrow>
                   let explicit_attrs = drop_none items;
                       derived = dict_update derived explicit_attrs;
                       base_doc = dict_update base_doc derived;
                       base_doc = AList.update (str ''updated_at'') (PStr (now_iso E)) base_doc;
                       store = es_index (products_index E) sku base_doc store
                   in
                   case product_url_for E sku of
                     Inl e \<Rightarrow> (store, Inl e)
                   | Inr product_url \<Rightarrow>
                       (store, Inr [(str ''sku'', sku), (str ''indexed'', PBool True),
                                    (str ''attributes'', PDict derived), (str ''url'', product_url)])))"

subsection \<open>Incidents\<close>

record SupplierIncident =
  incident_id :: pyval
  supplier_id :: pyval
  supplier_name :: pyval
  date_reported :: pyval
  sku :: pyval
  product_type :: pyval
  category_main :: pyval
  qty_total_in_shipment :: pyval
  qty_damaged :: pyval
  damage_type :: pyval
  shipment_id :: pyval
  transport_company :: pyval
  root_cause_guess :: pyval
  batch_id :: pyval
  packaging_primary :: pyval
  packaging_secondary :: pyval
  packaging_cushioning :: pyval
  comment :: pyval
  created_at :: pyval

definition required_fields :: "pystr list" where
  "required_fields =
     [str ''incident_id'', str ''supplier_id'', str ''supplier_name'', str ''date_reported'',
      str ''sku'', str ''product_type'', str ''category_main'', str ''qty_total_in_shipment'',
      str ''qty_damaged'']"

definition optional_fields :: "pystr list" where
  "optional_fields =
     [str ''damage_type'', str ''shipment_id'', str ''transport_company'', str ''root_cause_guess'',
      str ''batch_id'', str ''packaging_primary'', str ''packaging_secondary'',
      str ''packaging_cushioning'', str ''comment'', str ''created_at'']"

text \<open>
  \<open>SupplierIncident(**body)\<close>: the dataclass constructor raises \<open>TypeError\<close> on a keyword
  that is no field and on a missing field without default; it checks no types and no
  values.
\<close>

definition new_SupplierIncident :: "env \<Rightarrow> pydict \<Rightarrow> error + SupplierIncident" where
  "new_SupplierIncident E body =
     (if \<not> list_all (\<lambda>k. k \<in> set (required_fields @ optional_fields)) (map fst body) then Inl TypeError
      else if \<not> list_all (\<lambda>k. map_of body k \<noteq> None) required_fields then Inl TypeError
      else Inr \<lparr>
        incident_id = dict_get body (str ''incident_id'') PNone,
        supplier_id = dict_get body (str ''supplier_id'') PNone,
        supplier_name = dict_get body (str ''supplier_name'') PNone,
        date_reported = dict_get body (str ''date_reported'') PNone,
        sku = dict_get body (str ''sku'') PNone,
        product_type = dict_get body (str ''product_type'') PNone,
        category_main = dict_get body (str ''category_main'') PNone,
        qty_total_in_shipment = dict_get body (str ''qty_total_in_shipment'') PNone,
        qty_damaged = dict_get body (str ''qty_damaged'') PNone,
        damage_type = dict_get body (str ''damage_type'') (PList []),
        shipment_id = dict_get body (str ''shipment_id'') PNone,
        transport_company = dict_get body (str ''transport_company'') PNone,
        root_cause_guess = dict_get body (str ''root_cause_guess'') PNone,
        batch_id = dict_get body (str ''batch_id'') PNone,
        packaging_primary = dict_get body (str ''packaging_primary'') PNone,
        packaging_secondary = dict_get body (str ''packaging_secondary'') PNone,
        packaging_cushioning = dict_get body (str ''packaging_cushioning'') PNone,
        comment = dict_get body (str ''comment'') PNone,
        created_at = dict_get body (str ''created_at'') (PDateTime (utcnow E)) \<rparr>)"

definition asdict :: "SupplierIncident \<Rightarrow> pydict" where
  "asdict incident =
     [(str ''incident_id'', incident_id incident),
      (str ''supplier_id'', supplier_id incident),
      (str ''supplier_name'', supplier_name incident),
      (str ''date_reported'', date_reported incident),
      (str ''sku'', sku incident),
      (str ''product_type'', product_type incident),
      (str ''category_main'', category_main incident),
      (str ''qty_total_in_shipment'', qty_total_in_shipment incident),
      (str ''qty_damaged'', qty_damaged incident),
      (str ''damage_type'', damage_type incident),
      (str ''shipment_id'', shipment_id incident),
      (str ''transport_company'', transport_company incident),
      (str ''root_cause_guess'', root_cause_guess incident),
      (str ''batch_id'', batch_id incident),
      (str ''packaging_primary'', packaging_primary incident),
      (str ''packaging_secondary'', packaging_secondary incident),
      (str ''packaging_cushioning'', packaging_cushioning incident),
      (str ''comment'', comment incident),
      (str ''created_at'', created_at incident)]"

definition isoformat :: "pyval \<Rightarrow> error + pyval" where
  "isoformat v = (case v of PDateTime t \<Rightarrow> Inr (PStr t) | _ \<Rightarrow> Inl AttributeError)"

definition serialize_incident :: "SupplierIncident \<Rightarrow> error + pydict" where
  "serialize_incident incident =
     (let payload = asdict incident in
      bind_err (isoformat (date_reported incident)) (\<lambda>d.
      let payload = AList.update (str ''date_reported'') d payload in
      bind_err (isoformat (created_at incident)) (\<lambda>c.
      Inr (AList.update (str ''created_at'') c payload))))"

definition insert_incident :: "env \<Rightarrow> es_store \<Rightarrow> SupplierIncident \<Rightarrow> es_store \<times> (error + unit)" where
  "insert_incident E store incident =
     (case serialize_incident incident of
        Inl e \<Rightarrow> (store, Inl e)
      | Inr document \<Rightarrow>
          (es_index (supplier_incidents_index E) (incident_id incident) document store, Inr ()))"

definition create_incident :: "env \<Rightarrow> es_store \<Rightarrow> pydict \<Rightarrow> es_store \<times> (error + pydict)" where
  "create_incident E store payload =
     (let body = payload;
          body = (if \<not> truthy (dict_get body (str ''incident_id'') PNone)
                  then AList.update (str ''incident_id'') (PStr (str ''INC-'' @ uuid4_hex12 E)) body
                  else body);
          damage_type = dict_get body (str ''damage_type'') PNone;
          body = (case damage_type of
                    PStr s \<Rightarrow> AList.update (str ''damage_type'') (PList [damage_type]) body
                  | _ \<Rightarrow> body)
      in
      case py_gt E (dict_get body (str ''qty_damaged'') (PInt 0))
                   (dict_get body (str ''qty_total_in_shipment'') (PInt 0)) of
        Inl e \<Rightarrow> (store, Inl e)
      | Inr True \<Rightarrow> (store, Inl (ValueError (str ''qty_damaged cannot exceed qty_total_in_shipment'')))
      | Inr False \<Rightarrow>
          (case new_SupplierIncident E body of
             Inl e \<Rightarrow> (store, Inl e)
           | Inr incident \<Rightarrow>
               (case insert_incident E store incident of
                  (store, Inl e) \<Rightarrow> (store, Inl e)
                | (store, Inr u) \<Rightarrow>
                    (store, Inr [(str ''incident_id'', incident_id incident),
                                 (str ''created'', PBool True)]))))"

text \<open>A configuration for the worked examples.\<close>

definition example_env :: env where
  "example_env = \<lparr> unicode = ascii_ucd,
     products_index = str ''products'',
     supplier_incidents_index = str ''supplier_incidents'',
     product_url_template = None,
     now_iso = str ''2025-05-10T12:00:00'',
     utcnow = str ''2025-05-10T12:00:00'',
     uuid4_hex12 = str ''0123456789ab'',
     format_sku = (\<lambda>template sku. Inl TypeError),
     gt_other = (\<lambda>a b. Inl TypeError) \<rparr>"

section \<open>Analytics queries\<close>

text \<open>
  The analytics functions send one search request each and reshape the answer.  The
  requests use a small part of the Elasticsearch query language; its meaning on the stored
  documents is written out here: \<open>term\<close> and \<open>exists\<close> filters, \<open>terms\<close> buckets (largest
  first, at most \<open>size\<close> of them, here \<open>limit\<close>), \<open>sum\<close> and \<open>value_count\<close> metrics, the calendar-month
  histogram, and sorted hits.  Fields hold single values; numbers written as strings are
  not modelled.
\<close>

definition PRODUCTS_MAPPING :: "pystr list" where
  "PRODUCTS_MAPPING =
     [str ''sku'', str ''name'', str ''group_code'', str ''active'', str ''stock_status'',
      str ''brand'', str ''description_html'', str ''description_short'', str
      ''description_feed'', str ''price'', str ''price_list'', str ''price_final'', str
      ''vat_included'', str ''vat_rate'', str ''image_url'', str ''image_main'', str
      ''image_secondary_1'', str ''image_secondary_2'', str ''category_path'', str
      ''category_main'', str ''subcategory_level1'', str ''subcategory_level2'', str
      ''meta_title'', str ''meta_description'', str ''keywords'', str ''cross_sell_skus'',
      str ''up_sell_skus'', str ''ingredients_html'', str ''total_revenue'', str
      ''attr_volume_ml'', str ''attr_color_name'', str ''attr_shade_code'', str
      ''attr_finish'', str ''attr_curing_type'', str ''attr_collection'', str
      ''attr_liquid_type'', str ''attr_scent'', str ''attr_strength_percent'', str
      ''attr_length_mm'', str ''attr_material'', str ''attr_grit'', str ''attr_shape'', str
      ''updated_at'']"

definition keyword_of :: "pydict \<Rightarrow> pystr \<Rightarrow> pystr option" where
  "keyword_of doc field = (case map_of doc field of Some (PStr s) \<Rightarrow> Some s | _ \<Rightarrow> None)"


text \<open>
  A \<open>scaled_float\<close> field with scaling factor 100 is kept, and sorted, as the number of
  hundredths nearest to the value.
\<close>

definition scaled_of :: "pydict \<Rightarrow> pystr \<Rightarrow> int option" where
  "scaled_of doc field =
     (case map_of doc field of
        Some (PInt i) \<Rightarrow> Some (100 * i)
      | Some (PFloat r) \<Rightarrow> Some \<lfloor>r * 100 + 1 / 2\<rfloor>
      | _ \<Rightarrow> None)"

text \<open>
  \<open>exists\<close> in the products index, whose mapping is not dynamic: the field is one of the
  mapped fields and the document gives it a value.
\<close>

definition product_field_exists :: "pydict \<Rightarrow> pystr \<Rightarrow> bool" where
  "product_field_exists doc field =
     (field \<in> set PRODUCTS_MAPPING \<and>
      (case map_of doc field of None \<Rightarrow> False | Some PNone \<Rightarrow> False | Some (PList []) \<Rightarrow> False
       | Some v \<Rightarrow> True))"







subsection \<open>Supplier damage rates\<close>






subsection \<open>Attribute coverage and the fix list\<close>






text \<open>
  The sort of the fix list: \<open>price_final\<close> descending with missing values last, then \<open>sku\<close>
  ascending; documents that agree on both keep their order in the index.
\<close>

definition sort_value :: "pydict \<Rightarrow> (nat \<times> int) \<times> (nat \<times> pystr)" where
  "sort_value doc =
     ((case scaled_of doc (str ''price_final'') of None \<Rightarrow> (1, 0) | Some p \<Rightarrow> (0, - p)),
      (case keyword_of doc (str ''sku'') of None \<Rightarrow> (1, []) | Some s \<Rightarrow> (0, s)))"

definition source_filter :: "pystr list \<Rightarrow> pydict \<Rightarrow> pydict" where
  "source_filter names doc = filter (\<lambda>(k, v). k \<in> set names) doc"

definition fix_list_hits :: "env \<Rightarrow> es_store \<Rightarrow> pystr \<Rightarrow> pystr \<Rightarrow> nat \<Rightarrow> pydict list" where
  "fix_list_hits E store attribute_field category_main_filter limit =
     take limit
       (sort_key sort_value
         (filter (\<lambda>doc. keyword_of doc (str ''category_main'') = Some category_main_filter
                      \<and> \<not> product_field_exists doc attribute_field)
            (docs_of store (products_index E))))"

definition missing_attribute_fix_list ::
    "env \<Rightarrow> es_store \<Rightarrow> pystr \<Rightarrow> pystr \<Rightarrow> nat \<Rightarrow> pydict list" where
  "missing_attribute_fix_list E store attribute_field category_main_filter limit =
     map (source_filter [str ''sku'', str ''name'', str ''brand'', str ''price_final'',
                         str ''category_main'', str ''image_url''])
       (fix_list_hits E store attribute_field category_main_filter limit)"

subsection \<open>Vocabulary for the properties of the analytics\<close>





text \<open>
  The order of the fix list in the words of its contract: by price descending (at the
  resolution of the index, one hundredth), a missing price after every price, and among
  equal prices by SKU ascending.
\<close>

definition sku_ascending :: "pydict \<Rightarrow> pydict \<Rightarrow> bool" where
  "sku_ascending a b =
     (case (keyword_of a (str ''sku''), keyword_of b (str ''sku'')) of
        (Some s, Some t) \<Rightarrow> s \<le> t
      | (Some s, None) \<Rightarrow> True
      | (None, Some t) \<Rightarrow> False
      | (None, None) \<Rightarrow> True)"

definition listed_before :: "pydict \<Rightarrow> pydict \<Rightarrow> bool" where
  "listed_before a b =
     (case (scaled_of a (str ''price_final''), scaled_of b (str ''price_final'')) of
        (Some p, Some q) \<Rightarrow> p > q \<or> (p = q \<and> sku_ascending a b)
      | (Some p, None) \<Rightarrow> True
      | (None, Some q) \<Rightarrow> False
      | (None, None) \<Rightarrow> sku_ascending a b)"

section \<open>Properties of the matcher\<close>

lemma first_some_Some:
  "first_some f xs = Some r \<Longrightarrow> \<exists>x \<in> set xs. f x = Some r"
  by (induction xs) (auto split: option.splits)

lemma first_some_None:
  "first_some f xs = None \<Longrightarrow> x \<in> set xs \<Longrightarrow> f x = None"
  by (induction xs) (auto split: option.splits)

lemma rmatch_Some:
  "rmatch U r cur g k = Some res \<Longrightarrow> \<exists>cur' g'. matches U r cur g cur' g' \<and> k cur' g' = Some res"
proof (induction r arbitrary: cur g k)
  case (Seq a b)
  from Seq.prems have "rmatch U a cur g (\<lambda>cur' g'. rmatch U b cur' g' k) = Some res" by simp
  from Seq.IH(1)[OF this] obtain cm gm where
    m1: "matches U a cur g cm gm" and r2: "rmatch U b cm gm k = Some res" by blast
  from Seq.IH(2)[OF r2] obtain cur' g' where
    "matches U b cm gm cur' g'" "k cur' g' = Some res" by blast
  with m1 show ?case by (metis matches.simps(4))
next
  case (Alt a b)
  show ?case
  proof (cases "rmatch U a cur g k")
    case None
    with Alt.prems have "rmatch U b cur g k = Some res" by simp
    from Alt.IH(2)[OF this] show ?thesis by (metis matches.simps(5))
  next
    case (Some r')
    with Alt.prems have "rmatch U a cur g k = Some res" by simp
    from Alt.IH(1)[OF this] show ?thesis by (metis matches.simps(5))
  qed
next
  case (Group n r)
  from Group.prems have
    "rmatch U r cur g (\<lambda>cur' g'. k cur' (AList.update n (consumed cur cur') g')) = Some res"
    by simp
  from Group.IH[OF this] show ?case by (metis matches.simps(6))
next
  case (Rep cs lo hi greedy)
  from Rep have "first_some (\<lambda>i. k (advance i cur) g) (rep_lengths U cs lo hi greedy (snd cur)) = Some res"
    by simp
  from first_some_Some[OF this] obtain i where
    "i \<in> set (rep_lengths U cs lo hi greedy (snd cur))" "k (advance i cur) g = Some res" by blast
  then show ?case by (metis matches.simps(3))
next
  case (Lit ic ps)
  then show ?case by (auto split: option.splits)
next
  case (Set cs)
  then show ?case by (cases cur) (auto split: list.splits if_splits)
next
  case WordB
  then show ?case by (auto split: if_splits)
next
  case EndS
  then show ?case by (auto split: if_splits)
qed

lemma rmatch_None:
  "rmatch U r cur g k = None \<Longrightarrow> matches U r cur g cur' g' \<Longrightarrow> k cur' g' = None"
proof (induction r arbitrary: cur g k cur' g')
  case (Seq a b)
  from Seq.prems(2) obtain cm gm where
    m1: "matches U a cur g cm gm" and m2: "matches U b cm gm cur' g'" by auto
  from Seq.prems(1) have "rmatch U a cur g (\<lambda>cur' g'. rmatch U b cur' g' k) = None" by simp
  from Seq.IH(1)[OF this m1] have "rmatch U b cm gm k = None" .
  from Seq.IH(2)[OF this m2] show ?case .
next
  case (Alt a b)
  from Alt.prems(1) have na: "rmatch U a cur g k = None" and nb: "rmatch U b cur g k = None"
    by (auto split: option.splits)
  from Alt.prems(2) have "matches U a cur g cur' g' \<or> matches U b cur g cur' g'" by simp
  then show ?case using Alt.IH(1)[OF na] Alt.IH(2)[OF nb] by blast
next
  case (Group n r)
  from Group.prems(2) obtain g0 where
    m: "matches U r cur g cur' g0" and g': "g' = AList.update n (consumed cur cur') g0" by auto
  from Group.prems(1) have
    "rmatch U r cur g (\<lambda>cur' g'. k cur' (AList.update n (consumed cur cur') g')) = None"
    by simp
  from Group.IH[OF this m] g' show ?case by simp
next
  case (Rep cs lo hi greedy)
  from Rep.prems(1) have
    n: "first_some (\<lambda>i. k (advance i cur) g) (rep_lengths U cs lo hi greedy (snd cur)) = None"
    by simp
  from Rep.prems(2) obtain i where
    "i \<in> set (rep_lengths U cs lo hi greedy (snd cur))" "cur' = advance i cur" "g' = g" by auto
  with first_some_None[OF n] show ?case by simp
next
  case (Lit ic ps)
  then show ?case by (auto split: option.splits)
next
  case (Set cs)
  then show ?case by (cases cur) (auto split: list.splits if_splits)
next
  case WordB
  then show ?case by (auto split: if_splits)
next
  case EndS
  then show ?case by (auto split: if_splits)
qed


lemma advance_snd: "snd (advance i cur) = drop i (snd cur)"
  by (induction i cur rule: advance.induct) auto

lemma consumed_advance: "consumed cur (advance i cur) = take i (snd cur)"
proof -
  have "length (snd cur) - length (drop i (snd cur)) = min i (length (snd cur))" by simp
  then show ?thesis by (simp add: consumed_def advance_snd min_def)
qed

lemma lit_match_snd:
  "lit_match U ic ps cur = Some cur' \<Longrightarrow> \<exists>w. snd cur = w @ snd cur' \<and> length w = length ps"
proof (induction U ic ps cur rule: lit_match.induct)
  case (3 U ic p ps prev c cs)
  then have "lit_match U ic ps (Some c, cs) = Some cur'" by (auto split: if_splits)
  from 3(1)[OF _ this] 3(2) obtain w where "cs = w @ snd cur'" "length w = length ps"
    by (auto split: if_splits)
  then have "c # cs = (c # w) @ snd cur' \<and> length (c # w) = length (p # ps)" by simp
  then show ?case by (metis snd_conv)
qed auto

lemma matches_snd: "matches U r cur g cur' g' \<Longrightarrow> \<exists>w. snd cur = w @ snd cur'"
proof (induction r arbitrary: cur g cur' g')
  case (Lit ic ps)
  then show ?case using lit_match_snd by fastforce
next
  case (Set cs)
  then show ?case by auto
next
  case (Rep cs lo hi greedy)
  then obtain i where "cur' = advance i cur" by auto
  then have "snd cur = take i (snd cur) @ snd cur'" by (simp add: advance_snd)
  then show ?case by blast
next
  case (Seq a b)
  from Seq.prems obtain cm gm where
    "matches U a cur g cm gm" "matches U b cm gm cur' g'" by auto
  with Seq.IH obtain w1 w2 where "snd cur = w1 @ snd cm" "snd cm = w2 @ snd cur'" by blast
  then have "snd cur = (w1 @ w2) @ snd cur'" by simp
  then show ?case by blast
next
  case (Alt a b)
  from Alt.prems have "matches U a cur g cur' g' \<or> matches U b cur g cur' g'" by simp
  with Alt.IH show ?case by blast
next
  case (Group n r)
  from Group.prems obtain g0 where "matches U r cur g cur' g0" by auto
  with Group.IH show ?case by blast
next
  case WordB
  then show ?case by simp
next
  case EndS
  then show ?case by simp
qed

lemma consumed_append: "snd cur = w @ snd cur' \<Longrightarrow> consumed cur cur' = w"
  by (simp add: consumed_def)

lemma match_here_Some:
  "match_here U r cur = Some m \<Longrightarrow>
     \<exists>cur' g'. matches U r cur [] cur' g' \<and> m = (consumed cur cur', g')"
  unfolding match_here_def by (drule rmatch_Some) auto

lemma match_here_None:
  "match_here U r cur = None \<Longrightarrow> \<not> matches U r cur [] cur' g'"
  unfolding match_here_def by (auto dest: rmatch_None)

text \<open>The cursor reached after reading the prefix \<open>pre\<close>.\<close>

lemma search_from_Some:
  "search_from U r prev t = Some m \<Longrightarrow>
     \<exists>pre rest. t = pre @ rest \<and>
       match_here U r (if pre = [] then prev else Some (last pre), rest) = Some m"
proof (induction U r prev t rule: search_from.induct)
  case (1 U r prev)
  then show ?case by auto
next
  case (2 U r prev c cs)
  show ?case
  proof (cases "match_here U r (prev, c # cs)")
    case (Some m')
    with 2(2) have "match_here U r (prev, c # cs) = Some m" by simp
    then have "c # cs = [] @ (c # cs) \<and>
        match_here U r (if [] = ([]::pystr) then prev else Some (last []), c # cs) = Some m"
      by simp
    then show ?thesis by blast
  next
    case None
    with 2(2) have "search_from U r (Some c) cs = Some m" by simp
    from 2(1)[OF None this] obtain pre rest where
      pr: "cs = pre @ rest"
      "match_here U r (if pre = [] then Some c else Some (last pre), rest) = Some m" by blast
    then have "c # cs = (c # pre) @ rest \<and>
        match_here U r (if c # pre = [] then prev else Some (last (c # pre)), rest) = Some m"
      by auto
    then show ?thesis by blast
  qed
qed

lemma search_from_None:
  "search_from U r prev t = None \<Longrightarrow> t = pre @ rest \<Longrightarrow>
     match_here U r (if pre = [] then prev else Some (last pre), rest) = None"
proof (induction U r prev t arbitrary: pre rule: search_from.induct)
  case (1 U r prev)
  then show ?case by auto
next
  case (2 U r prev c cs)
  from 2(2) have n1: "match_here U r (prev, c # cs) = None"
    and n2: "search_from U r (Some c) cs = None" by (auto split: option.splits)
  show ?case
  proof (cases pre)
    case Nil
    with 2(3) n1 show ?thesis by simp
  next
    case (Cons p pre')
    with 2(3) have "cs = pre' @ rest" "p = c" by auto
    from 2(1)[OF n1 n2 this(1)] Cons \<open>p = c\<close> show ?thesis by auto
  qed
qed

lemma rep_lengths_iff:
  "i \<in> set (rep_lengths U cs lo hi greedy rest) \<longleftrightarrow>
     lo \<le> i \<and> i \<le> length (takeWhile (in_cset U cs) rest) \<and> (case hi of None \<Rightarrow> True | Some h \<Rightarrow> i \<le> h)"
  by (auto simp: rep_lengths_def Let_def split: option.splits)

lemma takeWhile_take_all:
  "i \<le> length (takeWhile P xs) \<Longrightarrow> list_all P (take i xs) \<and> i \<le> length xs"
proof (induction xs arbitrary: i)
  case (Cons x xs)
  then show ?case by (cases i) (auto split: if_splits)
qed simp

lemma prefix_all_takeWhile:
  "list_all P w \<Longrightarrow> length w \<le> length (takeWhile P (w @ rest))"
  by (induction w) auto

lemma str_eq_iff [simp]: "str a = str b \<longleftrightarrow> a = b"
  unfolding str_def by (simp add: inj_of_char)

lemma search_Some:
  "search U r t = Some m \<Longrightarrow>
     \<exists>pre rest cur' g'. t = pre @ rest \<and>
       matches U r (if pre = [] then None else Some (last pre), rest) [] cur' g' \<and>
       m = (consumed (if pre = [] then None else Some (last pre), rest) cur', g')"
  unfolding search_def by (drule search_from_Some) (metis match_here_Some)

lemma search_None:
  "search U r t = None \<Longrightarrow> t = pre @ rest \<Longrightarrow>
     \<not> matches U r (if pre = [] then None else Some (last pre), rest) [] cur' g'"
  unfolding search_def by (metis search_from_None match_here_None)

lemma matches_SeqE:
  assumes "matches U (Seq a b) cur g cur' g'"
  obtains cm gm where "matches U a cur g cm gm" "matches U b cm gm cur' g'"
  using assms by (simp only: matches.simps) blast

lemma matches_GroupE:
  assumes "matches U (Group n r) cur g cur' g'"
  obtains g0 where "matches U r cur g cur' g0" "g' = AList.update n (consumed cur cur') g0"
  using assms by (simp only: matches.simps) blast

lemma matches_RepE:
  assumes "matches U (Rep cs lo hi greedy) cur g cur' g'"
  obtains i where "i \<in> set (rep_lengths U cs lo hi greedy (snd cur))" "cur' = advance i cur" "g' = g"
  using assms by (simp only: matches.simps) blast

text \<open>A counted repetition that is captured as a group.\<close>

lemma matches_Group_Rep:
  "matches U (Group n (Rep cs lo hi greedy)) cur g cur' g' \<Longrightarrow>
     \<exists>w. snd cur = w @ snd cur' \<and> lo \<le> length w \<and> list_all (in_cset U cs) w \<and>
         (case hi of None \<Rightarrow> True | Some h \<Rightarrow> length w \<le> h) \<and> g' = AList.update n w g"
proof -
  assume "matches U (Group n (Rep cs lo hi greedy)) cur g cur' g'"
  then obtain g0 where m: "matches U (Rep cs lo hi greedy) cur g cur' g0"
    and g0: "g' = AList.update n (consumed cur cur') g0" by (rule matches_GroupE)
  from m obtain i where i: "i \<in> set (rep_lengths U cs lo hi greedy (snd cur))"
    and c: "cur' = advance i cur" and "g0 = g" by (rule matches_RepE)
  with g0 have g': "g' = AList.update n (consumed cur cur') g" by simp
  from i have b: "lo \<le> i" "i \<le> length (takeWhile (in_cset U cs) (snd cur))"
    "(case hi of None \<Rightarrow> True | Some h \<Rightarrow> i \<le> h)"
    by (simp_all add: rep_lengths_iff)
  from takeWhile_take_all[OF b(2)] have t: "list_all (in_cset U cs) (take i (snd cur))" "i \<le> length (snd cur)"
    by simp_all
  let ?w = "take i (snd cur)"
  have "snd cur = ?w @ snd cur'" by (simp add: c advance_snd)
  moreover have "length ?w = i" using t(2) by simp
  moreover have "g' = AList.update n ?w g" by (simp add: g' c consumed_advance)
  ultimately show ?thesis using b t(1) by (metis)
qed

lemma digits_group1:
  assumes "matches U (Seq (Group 1 (Rep CDigit lo hi greedy)) r) cur [] cur' g'"
    and "\<And>cm gm. matches U r cm gm cur' g' \<Longrightarrow> map_of g' 1 = map_of gm 1"
    and "0 < lo"
  shows "\<exists>v. map_of g' (1::nat) = Some v \<and> v \<noteq> [] \<and> list_all (is_decimal U) v"
proof -
  from assms(1) obtain cm gm where
    a: "matches U (Group 1 (Rep CDigit lo hi greedy)) cur [] cm gm" and b: "matches U r cm gm cur' g'"
    by (rule matches_SeqE)
  from matches_Group_Rep[OF a] obtain w where
    w: "lo \<le> length w" "list_all (in_cset U CDigit) w" "gm = AList.update 1 w []" by blast
  from assms(2)[OF b] w(3) have "map_of g' (1::nat) = Some w" by simp
  moreover from w(1) assms(3) have "w \<noteq> []" by auto
  moreover from w(2) have "list_all (is_decimal U) w" by (simp add: list_all_iff)
  ultimately show ?thesis by blast
qed

lemma after_Nil [simp]: "after prev [] = prev"
  by (simp add: after_def)

lemma after_Cons [simp]: "after prev (c # w) = after (Some c) w"
  by (simp add: after_def)

lemma after_append [simp]: "after prev (v @ w) = after (after prev v) w"
  by (simp add: after_def)

lemma advance_append: "advance (length w) (prev, w @ rest) = (after prev w, rest)"
  by (induction w arbitrary: prev) auto

lemma lit_match_iff:
  "lit_match U ic ps (prev, rest) = Some cur' \<longleftrightarrow>
     (\<exists>w rest'. rest = w @ rest' \<and> lit_word U ic ps w \<and> cur' = (after prev w, rest'))"
proof (induction ps arbitrary: prev rest)
  case Nil
  then show ?case by (auto simp: lit_word_def)
next
  case (Cons p ps)
  show ?case
  proof (cases rest)
    case Nil
    then show ?thesis by (auto simp: lit_word_def list_all2_Cons1)
  next
    case (Cons c cs)
    show ?thesis
    proof (cases "if ic then fold_eq U p c else c = p")
      case False
      have "\<not> lit_word U ic (p # ps) (c # w)" for w
        using False by (simp add: lit_word_def)
      moreover have "lit_match U ic (p # ps) (prev, rest) = None"
        using False Cons by simp
      moreover have "w = c # tl w" if "rest = w @ rest'" "lit_word U ic (p # ps) w" for w rest'
        using that Cons by (cases w) (auto simp: lit_word_def)
      ultimately show ?thesis by (metis option.distinct(1))
    next
      case True
      have "lit_match U ic (p # ps) (prev, rest) = Some cur' \<longleftrightarrow>
            lit_match U ic ps (Some c, cs) = Some cur'"
        using True Cons by simp
      also have "\<dots> \<longleftrightarrow> (\<exists>w rest'. cs = w @ rest' \<and> lit_word U ic ps w \<and> cur' = (after (Some c) w, rest'))"
        by (rule Cons.IH)
      also have "\<dots> \<longleftrightarrow> (\<exists>w rest'. rest = w @ rest' \<and> lit_word U ic (p # ps) w \<and> cur' = (after prev w, rest'))"
      proof
        assume "\<exists>w rest'. cs = w @ rest' \<and> lit_word U ic ps w \<and> cur' = (after (Some c) w, rest')"
        then obtain w rest' where "cs = w @ rest'" "lit_word U ic ps w" "cur' = (after (Some c) w, rest')"
          by blast
        then have "rest = (c # w) @ rest' \<and> lit_word U ic (p # ps) (c # w) \<and> cur' = (after prev (c # w), rest')"
          using True Cons by (simp add: lit_word_def)
        then show "\<exists>w rest'. rest = w @ rest' \<and> lit_word U ic (p # ps) w \<and> cur' = (after prev w, rest')"
          by blast
      next
        assume "\<exists>w rest'. rest = w @ rest' \<and> lit_word U ic (p # ps) w \<and> cur' = (after prev w, rest')"
        then obtain w rest' where w: "rest = w @ rest'" "lit_word U ic (p # ps) w" "cur' = (after prev w, rest')"
          by blast
        from w(2) obtain c' w' where w': "w = c' # w'" "lit_word U ic ps w'"
          by (auto simp: lit_word_def list_all2_Cons1)
        with w Cons have "cs = w' @ rest' \<and> lit_word U ic ps w' \<and> cur' = (after (Some c) w', rest')"
          by simp
        then show "\<exists>w rest'. cs = w @ rest' \<and> lit_word U ic ps w \<and> cur' = (after (Some c) w, rest')"
          by blast
      qed
      finally show ?thesis .
    qed
  qed
qed

lemma matches_Lit_iff:
  "matches U (Lit ic ps) (prev, rest) g cur' g' \<longleftrightarrow>
     (\<exists>w rest'. rest = w @ rest' \<and> lit_word U ic ps w \<and> cur' = (after prev w, rest') \<and> g' = g)"
  by (simp only: matches.simps lit_match_iff) blast

lemma matches_Set_iff:
  "matches U (Set cs) (prev, rest) g cur' g' \<longleftrightarrow>
     (\<exists>c rest'. rest = c # rest' \<and> in_cset U cs c \<and> cur' = (Some c, rest') \<and> g' = g)"
  by (simp only: matches.simps snd_conv)

lemma matches_Rep_iff:
  "matches U (Rep cs lo hi greedy) (prev, rest) g cur' g' \<longleftrightarrow>
     (\<exists>w rest'. rest = w @ rest' \<and> list_all (in_cset U cs) w \<and> lo \<le> length w \<and>
        (case hi of None \<Rightarrow> True | Some h \<Rightarrow> length w \<le> h) \<and>
        cur' = (after prev w, rest') \<and> g' = g)"
proof
  assume "matches U (Rep cs lo hi greedy) (prev, rest) g cur' g'"
  then obtain i where i: "i \<in> set (rep_lengths U cs lo hi greedy rest)"
    and c: "cur' = advance i (prev, rest)" and g: "g' = g"
    by (auto elim: matches_RepE)
  from i have b: "lo \<le> i" "i \<le> length (takeWhile (in_cset U cs) rest)"
    "(case hi of None \<Rightarrow> True | Some h \<Rightarrow> i \<le> h)"
    by (simp_all add: rep_lengths_iff)
  from takeWhile_take_all[OF b(2)] have t: "list_all (in_cset U cs) (take i rest)" "i \<le> length rest"
    by simp_all
  let ?w = "take i rest"
  have l: "length ?w = i" using t(2) by simp
  have r: "rest = ?w @ drop i rest" by simp
  have "advance i (prev, rest) = advance (length ?w) (prev, ?w @ drop i rest)"
    using l by simp
  also have "\<dots> = (after prev ?w, drop i rest)" by (rule advance_append)
  finally have "cur' = (after prev ?w, drop i rest)" using c by simp
  with r t(1) b l g have "rest = ?w @ drop i rest \<and> list_all (in_cset U cs) ?w \<and> lo \<le> length ?w \<and>
        (case hi of None \<Rightarrow> True | Some h \<Rightarrow> length ?w \<le> h) \<and>
        cur' = (after prev ?w, drop i rest) \<and> g' = g"
    by (simp split: option.splits)
  then show "\<exists>w rest'. rest = w @ rest' \<and> list_all (in_cset U cs) w \<and> lo \<le> length w \<and>
        (case hi of None \<Rightarrow> True | Some h \<Rightarrow> length w \<le> h) \<and>
        cur' = (after prev w, rest') \<and> g' = g"
    by blast
next
  assume "\<exists>w rest'. rest = w @ rest' \<and> list_all (in_cset U cs) w \<and> lo \<le> length w \<and>
        (case hi of None \<Rightarrow> True | Some h \<Rightarrow> length w \<le> h) \<and>
        cur' = (after prev w, rest') \<and> g' = g"
  then obtain w rest' where w: "rest = w @ rest'" "list_all (in_cset U cs) w" "lo \<le> length w"
    "(case hi of None \<Rightarrow> True | Some h \<Rightarrow> length w \<le> h)" "cur' = (after prev w, rest')" "g' = g"
    by blast
  from prefix_all_takeWhile[OF w(2)] w(1) have "length w \<le> length (takeWhile (in_cset U cs) rest)"
    by simp
  with w(3,4) have "length w \<in> set (rep_lengths U cs lo hi greedy rest)"
    by (simp add: rep_lengths_iff)
  moreover have "cur' = advance (length w) (prev, rest)"
    using w(1,5) by (simp add: advance_append)
  ultimately show "matches U (Rep cs lo hi greedy) (prev, rest) g cur' g'"
    using w(6) by (simp only: matches.simps snd_conv) blast
qed

lemma matches_reads:
  "matches U r (prev, rest) g cur' g' \<Longrightarrow> \<exists>w rest'. rest = w @ rest' \<and> cur' = (after prev w, rest')"
proof (induction r arbitrary: prev rest g cur' g')
  case (Lit ic ps)
  then obtain w rest' where "rest = w @ rest'" "cur' = (after prev w, rest')"
    unfolding matches_Lit_iff by blast
  then show ?case by blast
next
  case (Set cs)
  then obtain c rest' where "rest = c # rest'" "cur' = (Some c, rest')"
    unfolding matches_Set_iff by blast
  then have "rest = [c] @ rest' \<and> cur' = (after prev [c], rest')" by simp
  then show ?case by blast
next
  case (Rep cs lo hi greedy)
  then obtain w rest' where "rest = w @ rest'" "cur' = (after prev w, rest')"
    unfolding matches_Rep_iff by blast
  then show ?case by blast
next
  case (Seq a b)
  from Seq.prems obtain cm gm where
    a: "matches U a (prev, rest) g cm gm" and b: "matches U b cm gm cur' g'" by (rule matches_SeqE)
  from Seq.IH(1)[OF a] obtain w1 r1 where 1: "rest = w1 @ r1" "cm = (after prev w1, r1)" by blast
  from b 1(2) have b': "matches U b (after prev w1, r1) gm cur' g'" by simp
  from Seq.IH(2)[OF b'] obtain w2 r2 where
    2: "r1 = w2 @ r2" "cur' = (after (after prev w1) w2, r2)" by blast
  from 1 2 have "rest = (w1 @ w2) @ r2 \<and> cur' = (after prev (w1 @ w2), r2)" by simp
  then show ?case by blast
next
  case (Alt a b)
  from Alt.prems have "matches U a (prev, rest) g cur' g' \<or> matches U b (prev, rest) g cur' g'"
    by (simp only: matches.simps)
  then show ?case
  proof
    assume "matches U a (prev, rest) g cur' g'"
    then show ?thesis by (rule Alt.IH(1))
  next
    assume "matches U b (prev, rest) g cur' g'"
    then show ?thesis by (rule Alt.IH(2))
  qed
next
  case (Group n r)
  from Group.prems obtain g0 where "matches U r (prev, rest) g cur' g0" by (rule matches_GroupE)
  then show ?case by (rule Group.IH)
next
  case WordB
  then have "rest = [] @ rest \<and> cur' = (after prev [], rest)" by (simp only: matches.simps after_Nil append_Nil)
  then show ?case by blast
next
  case EndS
  then have "rest = [] @ rest \<and> cur' = (after prev [], rest)" by (simp only: matches.simps after_Nil append_Nil)
  then show ?case by blast
qed

lemma consumed_reads [simp]: "consumed (prev, w @ rest') (prev', rest') = w"
  by (simp add: consumed_def)

lemma matches_keeps_groups:
  "matches U r cur g cur' g' \<Longrightarrow> n \<notin> groups_of r \<Longrightarrow> map_of g' n = map_of g n"
proof (induction r arbitrary: cur g cur' g')
  case (Seq a b)
  from Seq.prems(1) obtain cm gm where
    a: "matches U a cur g cm gm" and b: "matches U b cm gm cur' g'" by (rule matches_SeqE)
  from Seq.prems(2) have "n \<notin> groups_of a" "n \<notin> groups_of b" by simp_all
  with Seq.IH(1)[OF a] Seq.IH(2)[OF b] show ?case by simp
next
  case (Alt a b)
  from Alt.prems(1) have "matches U a cur g cur' g' \<or> matches U b cur g cur' g'"
    by (simp only: matches.simps)
  moreover from Alt.prems(2) have "n \<notin> groups_of a" "n \<notin> groups_of b" by simp_all
  ultimately show ?case using Alt.IH by blast
next
  case (Group m r)
  from Group.prems(1) obtain g0 where
    r: "matches U r cur g cur' g0" and g': "g' = AList.update m (consumed cur cur') g0"
    by (rule matches_GroupE)
  from Group.prems(2) have "n \<noteq> m" "n \<notin> groups_of r" by simp_all
  with Group.IH[OF r] g' show ?case by (simp add: update_conv')
qed auto

lemma first_match_digits:
  assumes "first_match U (Seq (Group 1 (Rep CDigit lo hi greedy)) r) t = Some v"
    and "1 \<notin> groups_of r" and "0 < lo"
  shows "v \<noteq> [] \<and> list_all (is_decimal U) v"
proof -
  let ?P = "Seq (Group 1 (Rep CDigit lo hi greedy)) r"
  from assms(1) obtain m where m: "search U ?P t = Some m" and v: "group m 1 = Some v"
    by (auto simp: first_match_def split: option.splits)
  from search_Some[OF m] obtain cur cur' g' where
    ms: "matches U ?P cur [] cur' g'" and m': "m = (consumed cur cur', g')" by blast
  from ms obtain cm gm where
    a: "matches U (Group 1 (Rep CDigit lo hi greedy)) cur [] cm gm" and b: "matches U r cm gm cur' g'"
    by (rule matches_SeqE)
  from matches_Group_Rep[OF a] obtain w where
    w: "lo \<le> length w" "list_all (in_cset U CDigit) w" "gm = AList.update 1 w []" by blast
  from matches_keeps_groups[OF b assms(2)] w(3) have "map_of g' (1::nat) = Some w" by simp
  with v m' have "v = w" by (simp add: group_def)
  moreover from w(1) assms(3) have "w \<noteq> []" by auto
  moreover from w(2) have "list_all (is_decimal U) w" by (simp add: list_all_iff)
  ultimately show ?thesis by simp
qed

lemma volume_digits:
  "first_match U VOLUME_PATTERN t = Some v \<Longrightarrow> v \<noteq> [] \<and> list_all (is_decimal U) v"
  unfolding VOLUME_PATTERN_def by (erule first_match_digits) simp_all

lemma length_digits:
  "first_match U LENGTH_PATTERN t = Some v \<Longrightarrow> v \<noteq> [] \<and> list_all (is_decimal U) v"
  unfolding LENGTH_PATTERN_def by (erule first_match_digits) simp_all

lemma strength_digits:
  "first_match U STRENGTH_PATTERN t = Some v \<Longrightarrow> v \<noteq> [] \<and> list_all (is_decimal U) v"
  unfolding STRENGTH_PATTERN_def by (erule first_match_digits) simp_all

lemma lit_word_single: "lit_word U False [p] w \<longleftrightarrow> w = [p]"
  by (cases w) (auto simp: lit_word_def)

lemma str_single: "str [c] = [of_char c]"
  by (simp add: str_def)

lemma shade_match_head:
  assumes "search U SHADE_PATTERN t = Some m"
  shows "fst m \<noteq> [] \<and> hd (fst m) < 128"
proof -
  from search_Some[OF assms] obtain prev rest cur' g' where
    ms: "matches U SHADE_PATTERN (prev, rest) [] cur' g'"
    and m: "m = (consumed (prev, rest) cur', g')" by blast
  from matches_reads[OF ms] obtain w rest' where
    w: "rest = w @ rest'" "cur' = (after prev w, rest')" by blast
  with m have fm: "fst m = w" by simp
  from ms obtain cm gm where
    g1: "matches U (Group 1 (Alt (Seq (Lit False (str ''#'')) (Rep hex_digit 2 (Some 4) True))
            (Seq (Rep (CRange 65 90) 1 (Some 2) True) (Rep CDigit 2 (Some 3) True)))) (prev, rest) [] cm gm"
    and wb: "matches U WordB cm gm cur' g'"
    unfolding SHADE_PATTERN_def by (rule matches_SeqE)
  from wb have cm: "cm = cur'" by (simp only: matches.simps)
  from g1 obtain g0 where
    alt: "matches U (Alt (Seq (Lit False (str ''#'')) (Rep hex_digit 2 (Some 4) True))
            (Seq (Rep (CRange 65 90) 1 (Some 2) True) (Rep CDigit 2 (Some 3) True))) (prev, rest) [] cm g0"
    by (rule matches_GroupE)
  then have "matches U (Seq (Lit False (str ''#'')) (Rep hex_digit 2 (Some 4) True)) (prev, rest) [] cm g0
      \<or> matches U (Seq (Rep (CRange 65 90) 1 (Some 2) True) (Rep CDigit 2 (Some 3) True)) (prev, rest) [] cm g0"
    by (simp only: matches.simps)
  then have "\<exists>w1 w2. rest = w1 @ w2 @ rest' \<and> w1 \<noteq> [] \<and> hd w1 < 128"
  proof
    assume "matches U (Seq (Lit False (str ''#'')) (Rep hex_digit 2 (Some 4) True)) (prev, rest) [] cm g0"
    then obtain c1 g1 where
      l: "matches U (Lit False (str ''#'')) (prev, rest) [] c1 g1"
      and r: "matches U (Rep hex_digit 2 (Some 4) True) c1 g1 cm g0" by (rule matches_SeqE)
    from l obtain w1 r1 where 1: "rest = w1 @ r1" "lit_word U False (str ''#'') w1" "c1 = (after prev w1, r1)"
      unfolding matches_Lit_iff by blast
    from 1(2) have w1: "w1 = [35]" by (simp add: str_single lit_word_single)
    from r have "matches U (Rep hex_digit 2 (Some 4) True) (after prev w1, r1) g1 cm g0"
      by (simp only: 1(3))
    then obtain w2 r2 where 2: "r1 = w2 @ r2" "cm = (after (after prev w1) w2, r2)"
      unfolding matches_Rep_iff by blast
    from 2(2) cm w(2) have "r2 = rest'" by simp
    with 1(1) 2(1) w1 have "rest = w1 @ w2 @ rest' \<and> w1 \<noteq> [] \<and> hd w1 < 128" by simp
    then show ?thesis by blast
  next
    assume "matches U (Seq (Rep (CRange 65 90) 1 (Some 2) True) (Rep CDigit 2 (Some 3) True)) (prev, rest) [] cm g0"
    then obtain c1 g1 where
      l: "matches U (Rep (CRange 65 90) 1 (Some 2) True) (prev, rest) [] c1 g1"
      and r: "matches U (Rep CDigit 2 (Some 3) True) c1 g1 cm g0" by (rule matches_SeqE)
    from l obtain w1 r1 where 1: "rest = w1 @ r1" "list_all (in_cset U (CRange 65 90)) w1"
      "1 \<le> length w1" "c1 = (after prev w1, r1)"
      unfolding matches_Rep_iff by blast
    from 1(3) have w1n: "w1 \<noteq> []" by auto
    with 1(2) have "hd w1 < 128" by (cases w1) simp_all
    note w1 = w1n this
    from r have "matches U (Rep CDigit 2 (Some 3) True) (after prev w1, r1) g1 cm g0"
      by (simp only: 1(4))
    then obtain w2 r2 where 2: "r1 = w2 @ r2" "cm = (after (after prev w1) w2, r2)"
      unfolding matches_Rep_iff by blast
    from 2(2) cm w(2) have "r2 = rest'" by simp
    with 1(1) 2(1) w1 have "rest = w1 @ w2 @ rest' \<and> w1 \<noteq> [] \<and> hd w1 < 128" by simp
    then show ?thesis by blast
  qed
  then obtain w1 w2 where "rest = w1 @ w2 @ rest'" "w1 \<noteq> []" "hd w1 < 128" by blast
  with w(1) have "w = w1 @ w2" by simp
  with \<open>w1 \<noteq> []\<close> \<open>hd w1 < 128\<close> fm show ?thesis by simp
qed

lemma py_upper_nonempty: "t \<noteq> [] \<Longrightarrow> hd t < 128 \<Longrightarrow> py_upper U t \<noteq> []"
  by (cases t) (simp_all add: py_upper_def)

lemma str_append: "str (a @ b) = str a @ str b"
  by (simp add: str_def)

lemma lit_word_append:
  "lit_word U ic (p @ q) w \<longleftrightarrow>
     (\<exists>u v. w = u @ v \<and> lit_word U ic p u \<and> lit_word U ic q v)"
proof
  assume "lit_word U ic (p @ q) w"
  then obtain u v where "w = u @ v" "lit_word U ic p u" "lit_word U ic q v"
    unfolding lit_word_def list_all2_append1 by blast
  then show "\<exists>u v. w = u @ v \<and> lit_word U ic p u \<and> lit_word U ic q v" by blast
next
  assume "\<exists>u v. w = u @ v \<and> lit_word U ic p u \<and> lit_word U ic q v"
  then obtain u v where "w = u @ v" "lit_word U ic p u" "lit_word U ic q v" by blast
  then show "lit_word U ic (p @ q) w"
    unfolding lit_word_def by (simp add: list_all2_appendI)
qed

lemma is_space_newline: "is_space U 10"
  by (simp add: is_space_def)

lemma token_not_space: "is_word U c \<or> c = 45 \<Longrightarrow> \<not> is_space U c"
  by (cases "c < 128") (auto simp: is_word_def is_space_def)

lemma py_strip_token:
  assumes "list_all (\<lambda>c. is_word U c \<or> c = 45) tok"
  shows "py_strip U tok = tok"
proof -
  from assms have "\<And>c. c \<in> set tok \<Longrightarrow> is_word U c \<or> c = 45"
    by (simp add: list_all_iff)
  then have n: "\<forall>c \<in> set tok. \<not> is_space U c"
    using token_not_space by blast
  have d: "dropWhile (is_space U) xs = xs" if "\<forall>c \<in> set xs. \<not> is_space U c" for xs
    using that by (cases xs) auto
  from n have "dropWhile (is_space U) tok = tok" by (rule d)
  moreover from n have "dropWhile (is_space U) (rev tok) = rev tok" by (intro d) simp
  ultimately show ?thesis by (simp add: py_strip_def)
qed

text \<open>What a run of the collection pattern reads.\<close>

lemma collection_matches_sound:
  assumes "matches U COLLECTION_PATTERN (prev, rest) [] cur' g'"
  shows "\<exists>mk ws tok post. rest = mk @ ws @ tok @ post \<and>
        (lit_word U True (str ''colectia'') mk \<or> lit_word U True (str ''colectiei'') mk) \<and>
        ws \<noteq> [] \<and> list_all (is_space U) ws \<and>
        3 \<le> length tok \<and> length tok \<le> 30 \<and> list_all (\<lambda>c. is_word U c \<or> c = 45) tok \<and>
        (list_all (is_space U) post \<or>
         (\<exists>ws' d r. post = ws' @ d # r \<and> ws' \<noteq> [] \<and> list_all (is_space U) ws' \<and>
            is_decimal U d)) \<and>
        map_of g' 2 = Some tok"
proof -
  let ?tail3 = "Alt (Seq (Rep CSpace 1 None True) (Set CDigit)) (Seq (Rep CSpace 0 None True) EndS)"
  let ?tail2 = "Seq (Group 2 (Rep (CUnion CWord (CChar 45)) 3 (Some 30) False)) ?tail3"
  let ?tail1 = "Seq (Rep CSpace 1 None True) ?tail2"
  let ?tail0 = "Seq (Group 1 (Alt (Lit True (str ''ia'')) (Lit True (str ''iei'')))) ?tail1"
  from assms obtain c1 g1 where
    l1: "matches U (Lit True (str ''colect'')) (prev, rest) [] c1 g1"
    and t0: "matches U ?tail0 c1 g1 cur' g'"
    unfolding COLLECTION_PATTERN_def by (rule matches_SeqE)
  from l1 obtain m1 r1 where 1: "rest = m1 @ r1" "lit_word U True (str ''colect'') m1"
    "c1 = (after prev m1, r1)" "g1 = []"
    unfolding matches_Lit_iff by blast
  from t0 obtain c2 g2 where
    gr1: "matches U (Group 1 (Alt (Lit True (str ''ia'')) (Lit True (str ''iei'')))) c1 g1 c2 g2"
    and t1: "matches U ?tail1 c2 g2 cur' g'" by (rule matches_SeqE)
  from gr1 obtain g2' where
    alt: "matches U (Alt (Lit True (str ''ia'')) (Lit True (str ''iei''))) (after prev m1, r1) [] c2 g2'"
    unfolding 1(3,4) by (rule matches_GroupE)
  then have "matches U (Lit True (str ''ia'')) (after prev m1, r1) [] c2 g2'
      \<or> matches U (Lit True (str ''iei'')) (after prev m1, r1) [] c2 g2'"
    by (simp only: matches.simps)
  then obtain m2 r2 where 2: "r1 = m2 @ r2"
    "lit_word U True (str ''ia'') m2 \<or> lit_word U True (str ''iei'') m2"
    "c2 = (after (after prev m1) m2, r2)"
    unfolding matches_Lit_iff by blast
  have mk: "lit_word U True (str ''colectia'') (m1 @ m2) \<or> lit_word U True (str ''colectiei'') (m1 @ m2)"
  proof -
    have "str ''colectia'' = str ''colect'' @ str ''ia''" "str ''colectiei'' = str ''colect'' @ str ''iei''"
      by (simp_all add: str_append[symmetric])
    with 1(2) 2(2) show ?thesis by (auto simp: lit_word_append)
  qed
  from t1 obtain c3 g3 where
    sp: "matches U (Rep CSpace 1 None True) (after (after prev m1) m2, r2) g2 c3 g3"
    and t2: "matches U ?tail2 c3 g3 cur' g'"
    unfolding 2(3) by (rule matches_SeqE)
  from sp obtain ws r3 where 3: "r2 = ws @ r3" "list_all (in_cset U CSpace) ws" "1 \<le> length ws"
    "c3 = (after (after (after prev m1) m2) ws, r3)"
    unfolding matches_Rep_iff by blast
  from t2 obtain c4 g4 where
    gr2: "matches U (Group 2 (Rep (CUnion CWord (CChar 45)) 3 (Some 30) False)) c3 g3 c4 g4"
    and t3: "matches U ?tail3 c4 g4 cur' g'" by (rule matches_SeqE)
  from matches_Group_Rep[OF gr2] obtain tok where
    4: "snd c3 = tok @ snd c4" "3 \<le> length tok" "list_all (in_cset U (CUnion CWord (CChar 45))) tok"
    "length tok \<le> 30" "g4 = AList.update 2 tok g3"
    by auto
  from matches_keeps_groups[OF t3] 4(5) have g2: "map_of g' (2::nat) = Some tok"
    by (simp add: update_conv')
  obtain p4 r4 where c4: "c4 = (p4, r4)" by (cases c4)
  from 4(1) 3(4) c4 have r3: "r3 = tok @ r4" by simp
  from t3 have "matches U (Seq (Rep CSpace 1 None True) (Set CDigit)) (p4, r4) g4 cur' g'
     \<or> matches U (Seq (Rep CSpace 0 None True) EndS) (p4, r4) g4 cur' g'"
    unfolding c4 by (simp only: matches.simps)
  then have tm: "list_all (is_space U) r4 \<or>
         (\<exists>ws' d r. r4 = ws' @ d # r \<and> ws' \<noteq> [] \<and> list_all (is_space U) ws' \<and> is_decimal U d)"
  proof
    assume "matches U (Seq (Rep CSpace 1 None True) (Set CDigit)) (p4, r4) g4 cur' g'"
    then obtain c5 g5 where
      a: "matches U (Rep CSpace 1 None True) (p4, r4) g4 c5 g5"
      and b: "matches U (Set CDigit) c5 g5 cur' g'" by (rule matches_SeqE)
    from a obtain ws' r5 where 5: "r4 = ws' @ r5" "list_all (in_cset U CSpace) ws'" "1 \<le> length ws'"
      "c5 = (after p4 ws', r5)"
      unfolding matches_Rep_iff by blast
    from b obtain d r6 where 6: "r5 = d # r6" "in_cset U CDigit d"
      unfolding 5(4) matches_Set_iff by blast
    from 5 6 have "r4 = ws' @ d # r6 \<and> ws' \<noteq> [] \<and> list_all (is_space U) ws' \<and> is_decimal U d"
      by (auto simp: list_all_iff)
    then show ?thesis by blast
  next
    assume "matches U (Seq (Rep CSpace 0 None True) EndS) (p4, r4) g4 cur' g'"
    then obtain c5 g5 where
      a: "matches U (Rep CSpace 0 None True) (p4, r4) g4 c5 g5"
      and b: "matches U EndS c5 g5 cur' g'" by (rule matches_SeqE)
    from a obtain ws' r5 where 5: "r4 = ws' @ r5" "list_all (in_cset U CSpace) ws'"
      "c5 = (after p4 ws', r5)"
      unfolding matches_Rep_iff by blast
    from b have "at_end c5" by (simp only: matches.simps)
    with 5(3) have "r5 = [] \<or> r5 = [10]" by (simp add: at_end_def)
    with 5(1,2) have "list_all (is_space U) r4" by (auto simp: list_all_iff is_space_newline)
    then show ?thesis by blast
  qed
  from 1(1) 2(1) 3(1) r3 have "rest = (m1 @ m2) @ ws @ tok @ r4" by simp
  moreover from 3(2,3) have "ws \<noteq> []" "list_all (is_space U) ws" by (auto simp: list_all_iff)
  moreover from 4(3) have "list_all (\<lambda>c. is_word U c \<or> c = 45) tok" by (simp add: list_all_iff)
  ultimately have "rest = (m1 @ m2) @ ws @ tok @ r4 \<and>
        (lit_word U True (str ''colectia'') (m1 @ m2) \<or> lit_word U True (str ''colectiei'') (m1 @ m2)) \<and>
        ws \<noteq> [] \<and> list_all (is_space U) ws \<and>
        3 \<le> length tok \<and> length tok \<le> 30 \<and> list_all (\<lambda>c. is_word U c \<or> c = 45) tok \<and>
        (list_all (is_space U) r4 \<or>
         (\<exists>ws' d r. r4 = ws' @ d # r \<and> ws' \<noteq> [] \<and> list_all (is_space U) ws' \<and>
            is_decimal U d)) \<and>
        map_of g' 2 = Some tok"
    using mk 4(2,4) tm g2 by simp
  then show ?thesis by (intro exI[of _ "m1 @ m2"] exI[of _ ws] exI[of _ tok] exI[of _ r4])
qed

lemma matches_SeqI:
  "matches U a cur g cm gm \<Longrightarrow> matches U b cm gm cur' g' \<Longrightarrow> matches U (Seq a b) cur g cur' g'"
  by (simp only: matches.simps) blast

lemma matches_GroupI:
  "matches U r cur g cur' g0 \<Longrightarrow> matches U (Group n r) cur g cur' (AList.update n (consumed cur cur') g0)"
  by (simp only: matches.simps) blast

lemma matches_LitI:
  "lit_word U ic ps w \<Longrightarrow> matches U (Lit ic ps) (prev, w @ rest') g (after prev w, rest') g"
  unfolding matches_Lit_iff by blast

lemma matches_RepI:
  "list_all (in_cset U cs) w \<Longrightarrow> lo \<le> length w \<Longrightarrow>
     (case hi of None \<Rightarrow> True | Some h \<Rightarrow> length w \<le> h) \<Longrightarrow>
     matches U (Rep cs lo hi greedy) (prev, w @ rest') g (after prev w, rest') g"
  unfolding matches_Rep_iff by blast

lemma collection_matches_complete:
  assumes mk: "lit_word U True (str ''colectia'') mk \<or> lit_word U True (str ''colectiei'') mk"
    and ws: "ws \<noteq> []" "list_all (is_space U) ws"
    and tok: "3 \<le> length tok" "length tok \<le> 30" "list_all (\<lambda>c. is_word U c \<or> c = 45) tok"
    and post: "list_all (is_space U) post \<or>
         (\<exists>ws' d r. post = ws' @ d # r \<and> ws' \<noteq> [] \<and> list_all (is_space U) ws' \<and> is_decimal U d)"
  shows "\<exists>cur' g'. matches U COLLECTION_PATTERN (prev, mk @ ws @ tok @ post) [] cur' g'"
proof -
  have "str ''colectia'' = str ''colect'' @ str ''ia''" "str ''colectiei'' = str ''colect'' @ str ''iei''"
    by (simp_all add: str_append[symmetric])
  with mk obtain m1 m2 where m: "mk = m1 @ m2" "lit_word U True (str ''colect'') m1"
    "lit_word U True (str ''ia'') m2 \<or> lit_word U True (str ''iei'') m2"
    by (auto simp: lit_word_append)
  define p1 where "p1 = after prev m1"
  define p2 where "p2 = after p1 m2"
  define p3 where "p3 = after p2 ws"
  define p4 where "p4 = after p3 tok"
  define g1 where "g1 = AList.update (1::nat) m2 ([]::groups)"
  define g2 where "g2 = AList.update (2::nat) tok g1"
  have s1: "matches U (Lit True (str ''colect'')) (prev, m1 @ m2 @ ws @ tok @ post) []
              (p1, m2 @ ws @ tok @ post) []"
    unfolding p1_def using m(2) by (rule matches_LitI)
  from m(3) have "matches U (Lit True (str ''ia'')) (p1, m2 @ ws @ tok @ post) [] (p2, ws @ tok @ post) []
      \<or> matches U (Lit True (str ''iei'')) (p1, m2 @ ws @ tok @ post) [] (p2, ws @ tok @ post) []"
    unfolding p2_def using matches_LitI by blast
  then have "matches U (Alt (Lit True (str ''ia'')) (Lit True (str ''iei''))) (p1, m2 @ ws @ tok @ post) []
              (p2, ws @ tok @ post) []"
    by (simp only: matches.simps)
  from matches_GroupI[OF this, of 1] have s2:
    "matches U (Group 1 (Alt (Lit True (str ''ia'')) (Lit True (str ''iei'')))) (p1, m2 @ ws @ tok @ post) []
              (p2, ws @ tok @ post) g1"
    by (simp add: g1_def)
  from ws have s3: "matches U (Rep CSpace 1 None True) (p2, ws @ tok @ post) g1 (p3, tok @ post) g1"
    unfolding p3_def by (intro matches_RepI) (auto simp: list_all_iff Suc_le_eq)
  from tok have "matches U (Rep (CUnion CWord (CChar 45)) 3 (Some 30) False) (p3, tok @ post) g1 (p4, post) g1"
    unfolding p4_def by (intro matches_RepI) (auto simp: list_all_iff)
  from matches_GroupI[OF this, of 2] have s4:
    "matches U (Group 2 (Rep (CUnion CWord (CChar 45)) 3 (Some 30) False)) (p3, tok @ post) g1 (p4, post) g2"
    by (simp add: g2_def)
  have "\<exists>cur'. matches U (Alt (Seq (Rep CSpace 1 None True) (Set CDigit)) (Seq (Rep CSpace 0 None True) EndS))
            (p4, post) g2 cur' g2"
    using post
  proof
    assume a: "list_all (is_space U) post"
    then have "matches U (Rep CSpace 0 None True) (p4, post @ []) g2 (after p4 post, []) g2"
      by (intro matches_RepI) (auto simp: list_all_iff)
    moreover have "matches U EndS (after p4 post, []) g2 (after p4 post, []) g2"
      by (simp add: at_end_def)
    ultimately have "matches U (Seq (Rep CSpace 0 None True) EndS) (p4, post) g2 (after p4 post, []) g2"
      using matches_SeqI by fastforce
    then show ?thesis by (simp only: matches.simps) blast
  next
    assume "\<exists>ws' d r. post = ws' @ d # r \<and> ws' \<noteq> [] \<and> list_all (is_space U) ws' \<and> is_decimal U d"
    then obtain ws' d r where b: "post = ws' @ d # r" "ws' \<noteq> []" "list_all (is_space U) ws'" "is_decimal U d"
      by blast
    from b(2,3) have "matches U (Rep CSpace 1 None True) (p4, ws' @ d # r) g2 (after p4 ws', d # r) g2"
      by (intro matches_RepI) (auto simp: list_all_iff Suc_le_eq)
    moreover from b(4) have "matches U (Set CDigit) (after p4 ws', d # r) g2 (Some d, r) g2"
      unfolding matches_Set_iff by simp
    ultimately have "matches U (Seq (Rep CSpace 1 None True) (Set CDigit)) (p4, post) g2 (Some d, r) g2"
      unfolding b(1) by (rule matches_SeqI)
    then show ?thesis by (simp only: matches.simps) blast
  qed
  then obtain cur' where s5:
    "matches U (Alt (Seq (Rep CSpace 1 None True) (Set CDigit)) (Seq (Rep CSpace 0 None True) EndS))
            (p4, post) g2 cur' g2" by blast
  have "matches U COLLECTION_PATTERN (prev, mk @ ws @ tok @ post) [] cur' g2"
    unfolding COLLECTION_PATTERN_def m(1) append_assoc
    by (intro matches_SeqI[OF s1] matches_SeqI[OF s2] matches_SeqI[OF s3] matches_SeqI[OF s4] s5)
  then show ?thesis by blast
qed

lemma collection_search_Some:
  assumes "search U COLLECTION_PATTERN h = Some m"
  shows "\<exists>tok. group m 2 = Some tok \<and> collection_occurrence U h tok"
proof -
  from search_Some[OF assms] obtain pre rest cur' g' where
    h: "h = pre @ rest"
    and ms: "matches U COLLECTION_PATTERN (if pre = [] then None else Some (last pre), rest) [] cur' g'"
    and m: "m = (consumed (if pre = [] then None else Some (last pre), rest) cur', g')" by blast
  from collection_matches_sound[OF ms] obtain mk ws tok post where
    o: "rest = mk @ ws @ tok @ post"
    "lit_word U True (str ''colectia'') mk \<or> lit_word U True (str ''colectiei'') mk"
    "ws \<noteq> []" "list_all (is_space U) ws"
    "3 \<le> length tok" "length tok \<le> 30" "list_all (\<lambda>c. is_word U c \<or> c = 45) tok"
    "list_all (is_space U) post \<or>
         (\<exists>ws' d r. post = ws' @ d # r \<and> ws' \<noteq> [] \<and> list_all (is_space U) ws' \<and> is_decimal U d)"
    "map_of g' 2 = Some tok" by blast
  from h o(1) have "h = pre @ mk @ ws @ tok @ post" by simp
  with o(2-8) have "collection_occurrence U h tok"
    unfolding collection_occurrence_def by blast
  moreover from m o(9) have "group m 2 = Some tok" by (simp add: group_def)
  ultimately show ?thesis by blast
qed

lemma collection_search_None:
  assumes "search U COLLECTION_PATTERN h = None"
  shows "\<not> collection_occurrence U h tok"
proof
  assume "collection_occurrence U h tok"
  then obtain pre mk ws post where
    o: "h = pre @ mk @ ws @ tok @ post"
    "lit_word U True (str ''colectia'') mk \<or> lit_word U True (str ''colectiei'') mk"
    "ws \<noteq> []" "list_all (is_space U) ws"
    "3 \<le> length tok" "length tok \<le> 30" "list_all (\<lambda>c. is_word U c \<or> c = 45) tok"
    "list_all (is_space U) post \<or>
         (\<exists>ws' d rest. post = ws' @ d # rest \<and> ws' \<noteq> [] \<and> list_all (is_space U) ws' \<and> is_decimal U d)"
    unfolding collection_occurrence_def by blast
  from collection_matches_complete[OF o(2-8)] obtain cur' g' where
    "matches U COLLECTION_PATTERN (if pre = [] then None else Some (last pre), mk @ ws @ tok @ post) [] cur' g'"
    by blast
  with search_None[OF assms o(1)] show False by blast
qed

subsection \<open>The steps of the extractor\<close>

lemma bind_err_Inr_iff: "bind_err m f = Inr y \<longleftrightarrow> (\<exists>x. m = Inr x \<and> f x = Inr y)"
  by (cases m) (simp_all add: bind_err_def)

lemma py_float_digits:
  "v \<noteq> [] \<Longrightarrow> list_all (is_decimal U) v \<Longrightarrow> py_float U v = Inr (of_nat (decimal_value U v))"
  by (simp add: py_float_def)

lemma set_float_digits:
  assumes "\<And>v. found = Some v \<Longrightarrow> v \<noteq> [] \<and> list_all (is_decimal U) v"
  shows "set_float U key found a =
     Inr (case found of None \<Rightarrow> a | Some v \<Rightarrow> AList.update key (PFloat (of_nat (decimal_value U v))) a)"
proof (cases found)
  case None
  then show ?thesis by (simp add: set_float_def)
next
  case (Some v)
  with assms have "v \<noteq> []" "list_all (is_decimal U) v" by simp_all
  with Some show ?thesis by (simp add: set_float_def py_float_digits bind_err_def)
qed

lemma map_of_set_str:
  "map_of (set_str key f found a) k =
     (case found of
        None \<Rightarrow> map_of a k
      | Some v \<Rightarrow> if v \<noteq> [] \<and> k = key then Some (PStr (f v)) else map_of a k)"
  by (simp add: set_str_def update_conv' split: option.splits)

lemma map_of_set_shade:
  "map_of (set_shade U sm a) k =
     (case sm of
        None \<Rightarrow> map_of a k
      | Some m \<Rightarrow> if k = str ''attr_shade_code'' then Some (PStr (py_upper U (fst m))) else map_of a k)"
  by (simp add: set_shade_def update_conv' split: option.splits)

lemma keys_set_str: "fst ` set (set_str key f found a) \<subseteq> insert key (fst ` set a)"
  by (auto simp: set_str_def dom_update split: option.splits)

lemma keys_set_shade: "fst ` set (set_shade U sm a) \<subseteq> insert (str ''attr_shade_code'') (fst ` set a)"
  by (auto simp: set_shade_def dom_update split: option.splits)

lemma distinct_set_str: "distinct (map fst a) \<Longrightarrow> distinct (map fst (set_str key f found a))"
  by (simp add: set_str_def distinct_update split: option.splits)

lemma distinct_set_shade: "distinct (map fst a) \<Longrightarrow> distinct (map fst (set_shade U sm a))"
  by (simp add: set_shade_def distinct_update split: option.splits)

lemma set_collection_found:
  assumes "search U COLLECTION_PATTERN h = cm"
  shows "set_collection U cm a =
     Inr (case cm of None \<Rightarrow> a
          | Some m \<Rightarrow> AList.update (str ''attr_collection'') (PStr (the (group m 2))) a)"
proof (cases cm)
  case None
  then show ?thesis by (simp add: set_collection_def)
next
  case (Some m)
  with assms collection_search_Some obtain tok where
    t: "group m 2 = Some tok" "collection_occurrence U h tok" by blast
  then have "list_all (\<lambda>c. is_word U c \<or> c = 45) tok"
    unfolding collection_occurrence_def by blast
  then have "py_strip U tok = tok" by (rule py_strip_token)
  with Some t(1) show ?thesis by (simp add: set_collection_def)
qed

lemma distinct_case_update:
  "distinct (map fst a) \<Longrightarrow>
     distinct (map fst (case found of None \<Rightarrow> a | Some v \<Rightarrow> AList.update key (g v) a))"
  by (simp add: distinct_update split: option.splits)

lemma keys_set_str_mono:
  "fst ` set a \<subseteq> S \<Longrightarrow> fst ` set (set_str key f found a) \<subseteq> insert key S"
  using keys_set_str[of key f found a] by blast

lemma keys_set_shade_mono:
  "fst ` set a \<subseteq> S \<Longrightarrow> fst ` set (set_shade U sm a) \<subseteq> insert (str ''attr_shade_code'') S"
  using keys_set_shade[of U sm a] by blast

lemma keys_case_update_mono:
  "fst ` set a \<subseteq> S \<Longrightarrow>
     fst ` set (case found of None \<Rightarrow> a | Some v \<Rightarrow> AList.update key (g v) a) \<subseteq> insert key S"
  by (auto simp: dom_update split: option.splits)

lemma first_keyword_mem: "first_keyword t ks = Some k \<Longrightarrow> k \<in> set ks \<and> sublist k t"
  by (induction ks) (auto split: if_splits)


lemma keywords_nonempty:
  "[] \<notin> set FINISH_KEYWORDS" "[] \<notin> set CURING_KEYWORDS" "[] \<notin> set LIQUID_TYPES"
  "[] \<notin> set SCENT_KEYWORDS" "[] \<notin> set MATERIAL_KEYWORDS" "[] \<notin> set SHAPE_KEYWORDS"
  "[] \<notin> set COLOR_KEYWORDS"
  by (simp_all add: FINISH_KEYWORDS_def CURING_KEYWORDS_def LIQUID_TYPES_def SCENT_KEYWORDS_def
      MATERIAL_KEYWORDS_def SHAPE_KEYWORDS_def COLOR_KEYWORDS_def str_def)

lemma map_of_absent: "key \<notin> fst ` set a \<Longrightarrow> map_of a key = None"
  by (simp add: map_of_eq_None_iff)

lemma lookup_set_keyword:
  assumes "[] \<notin> set ks" "key \<notin> fst ` set a"
  shows "map_of (set_str key f (first_keyword t ks) a) k =
     (if k = key then map_option (\<lambda>v. PStr (f v)) (first_keyword t ks) else map_of a k)"
proof (cases "first_keyword t ks")
  case None
  with assms(2) show ?thesis by (simp add: set_str_def map_of_absent)
next
  case (Some v)
  with first_keyword_mem assms(1) have "v \<noteq> []" by blast
  with Some show ?thesis by (simp add: set_str_def update_conv')
qed

lemma lookup_set_match:
  assumes "key \<notin> fst ` set a"
  shows "map_of (set_str key f (first_match U r t) a) k =
     (if k = key
      then (case first_match U r t of None \<Rightarrow> None
            | Some v \<Rightarrow> if v = [] then None else Some (PStr (f v)))
      else map_of a k)"
  using assms by (simp add: set_str_def update_conv' map_of_absent split: option.splits)

lemma lookup_set_shade:
  assumes "str ''attr_shade_code'' \<notin> fst ` set a"
  shows "map_of (set_shade U sm a) k =
     (if k = str ''attr_shade_code'' then map_option (\<lambda>m. PStr (py_upper U (fst m))) sm
      else map_of a k)"
  using assms by (simp add: set_shade_def update_conv' map_of_absent split: option.splits)

lemma lookup_case_update:
  assumes "key \<notin> fst ` set a"
  shows "map_of (case found of None \<Rightarrow> a | Some v \<Rightarrow> AList.update key (g v) a) k =
     (if k = key then map_option g found else map_of a k)"
  using assms by (simp add: update_conv' map_of_absent split: option.splits)

text \<open>The extractor never fails, and its result is built by thirteen updates.\<close>

lemma extract_attributes_lookup:
  fixes U name description
  defines "h \<equiv> haystack_of name description"
  defines "hl \<equiv> py_lower U h"
  shows "\<exists>a. extract_attributes U name description = Inr a \<and> distinct (map fst a) \<and>
    (\<forall>k. map_of a k =
      (
       if k = str ''attr_collection'' then (case search U COLLECTION_PATTERN h of None \<Rightarrow> None | Some m \<Rightarrow> map_option PStr (group m 2))
       else if k = str ''attr_color_name'' then map_option PStr (first_keyword hl COLOR_KEYWORDS)
       else if k = str ''attr_shape'' then map_option PStr (first_keyword hl SHAPE_KEYWORDS)
       else if k = str ''attr_material'' then map_option PStr (first_keyword hl MATERIAL_KEYWORDS)
       else if k = str ''attr_length_mm'' then map_option (\<lambda>v. PFloat (of_nat (decimal_value U v))) (first_match U LENGTH_PATTERN h)
       else if k = str ''attr_strength_percent'' then map_option (\<lambda>v. PFloat (of_nat (decimal_value U v))) (first_match U STRENGTH_PATTERN h)
       else if k = str ''attr_scent'' then map_option PStr (first_keyword hl SCENT_KEYWORDS)
       else if k = str ''attr_liquid_type'' then map_option PStr (first_keyword hl LIQUID_TYPES)
       else if k = str ''attr_curing_type'' then map_option (\<lambda>v. PStr (py_upper U (replace_space_empty v))) (first_keyword hl CURING_KEYWORDS)
       else if k = str ''attr_finish'' then map_option PStr (first_keyword hl FINISH_KEYWORDS)
       else if k = str ''attr_shade_code'' then map_option (\<lambda>m. PStr (py_upper U (fst m))) (search U SHADE_PATTERN h)
       else if k = str ''attr_grit'' then (case first_match U GRIT_PATTERN h of None \<Rightarrow> None | Some v \<Rightarrow> if v = [] then None else Some (PStr v))
       else if k = str ''attr_volume_ml'' then map_option (\<lambda>v. PFloat (of_nat (decimal_value U v))) (first_match U VOLUME_PATTERN h)
       else None))"
proof -
  define c1 where "c1 = (case first_match U VOLUME_PATTERN h of None \<Rightarrow> [] | Some v \<Rightarrow> AList.update (str ''attr_volume_ml'') (PFloat (of_nat (decimal_value U v))) [])"
  define c2 where "c2 = set_str (str ''attr_grit'') id (first_match U GRIT_PATTERN h) c1"
  define c3 where "c3 = set_shade U (search U SHADE_PATTERN h) c2"
  define c4 where "c4 = set_str (str ''attr_finish'') id (first_keyword hl FINISH_KEYWORDS) c3"
  define c5 where "c5 = set_str (str ''attr_curing_type'') (\<lambda>v. py_upper U (replace_space_empty v)) (first_keyword hl CURING_KEYWORDS) c4"
  define c6 where "c6 = set_str (str ''attr_liquid_type'') id (first_keyword hl LIQUID_TYPES) c5"
  define c7 where "c7 = set_str (str ''attr_scent'') id (first_keyword hl SCENT_KEYWORDS) c6"
  define c8 where "c8 = (case first_match U STRENGTH_PATTERN h of None \<Rightarrow> c7 | Some v \<Rightarrow> AList.update (str ''attr_strength_percent'') (PFloat (of_nat (decimal_value U v))) c7)"
  define c9 where "c9 = (case first_match U LENGTH_PATTERN h of None \<Rightarrow> c8 | Some v \<Rightarrow> AList.update (str ''attr_length_mm'') (PFloat (of_nat (decimal_value U v))) c8)"
  define c10 where "c10 = set_str (str ''attr_material'') id (first_keyword hl MATERIAL_KEYWORDS) c9"
  define c11 where "c11 = set_str (str ''attr_shape'') id (first_keyword hl SHAPE_KEYWORDS) c10"
  define c12 where "c12 = set_str (str ''attr_color_name'') id (first_keyword hl COLOR_KEYWORDS) c11"
  define c13 where "c13 = (case search U COLLECTION_PATTERN h of None \<Rightarrow> c12 | Some m \<Rightarrow> AList.update (str ''attr_collection'') (PStr (the (group m 2))) c12)"
  have v: "set_float U (str ''attr_volume_ml'') (first_match U VOLUME_PATTERN h) x =
      Inr (case first_match U VOLUME_PATTERN h of None \<Rightarrow> x
           | Some v \<Rightarrow> AList.update (str ''attr_volume_ml'') (PFloat (of_nat (decimal_value U v))) x)" for x
    by (rule set_float_digits) (rule volume_digits)
  have s: "set_float U (str ''attr_strength_percent'') (first_match U STRENGTH_PATTERN h) x =
      Inr (case first_match U STRENGTH_PATTERN h of None \<Rightarrow> x
           | Some v \<Rightarrow> AList.update (str ''attr_strength_percent'') (PFloat (of_nat (decimal_value U v))) x)" for x
    by (rule set_float_digits) (rule strength_digits)
  have l: "set_float U (str ''attr_length_mm'') (first_match U LENGTH_PATTERN h) x =
      Inr (case first_match U LENGTH_PATTERN h of None \<Rightarrow> x
           | Some v \<Rightarrow> AList.update (str ''attr_length_mm'') (PFloat (of_nat (decimal_value U v))) x)" for x
    by (rule set_float_digits) (rule length_digits)
  have c: "set_collection U (search U COLLECTION_PATTERN h) x =
      Inr (case search U COLLECTION_PATTERN h of None \<Rightarrow> x
           | Some m \<Rightarrow> AList.update (str ''attr_collection'') (PStr (the (group m 2))) x)" for x
    by (rule set_collection_found) (rule refl)
  have e: "extract_attributes U name description = Inr c13"
    unfolding extract_attributes_def Let_def h_def[symmetric] hl_def[symmetric] c13_def c12_def c11_def c10_def c9_def c8_def c7_def c6_def c5_def c4_def c3_def c2_def c1_def
    by (simp only: v s l c bind_err_def sum.case)
  have g: "map_option (\<lambda>m. PStr (the (group m 2))) (search U COLLECTION_PATTERN h)
      = (case search U COLLECTION_PATTERN h of None \<Rightarrow> None | Some m \<Rightarrow> map_option PStr (group m 2))"
    using collection_search_Some[of U h] by (cases "search U COLLECTION_PATTERN h") auto
  have d1: "distinct (map fst c1)" unfolding c1_def by (intro distinct_case_update) simp
  have s1: "fst ` set c1 \<subseteq> {str ''attr_volume_ml''}" unfolding c1_def by (intro keys_case_update_mono) simp
  have m1: "map_of c1 k = (if k = str ''attr_volume_ml'' then map_option (\<lambda>v. PFloat (of_nat (decimal_value U v))) (first_match U VOLUME_PATTERN h) else None)" for k
    unfolding c1_def by (subst lookup_case_update) simp_all
  have d2: "distinct (map fst c2)" unfolding c2_def by (intro distinct_set_str d1)
  have s2: "fst ` set c2 \<subseteq> {str ''attr_grit'', str ''attr_volume_ml''}" unfolding c2_def by (intro keys_set_str_mono s1)
  have n2: "str ''attr_grit'' \<notin> fst ` set c1" using s1 by auto
  have m2: "map_of c2 k = (if k = str ''attr_grit'' then (case first_match U GRIT_PATTERN h of None \<Rightarrow> None | Some v \<Rightarrow> if v = [] then None else Some (PStr v)) else map_of c1 k)" for k
    unfolding c2_def by (simp add: lookup_set_match[OF n2] cong: option.case_cong if_cong)
  have d3: "distinct (map fst c3)" unfolding c3_def by (intro distinct_set_shade d2)
  have s3: "fst ` set c3 \<subseteq> {str ''attr_shade_code'', str ''attr_grit'', str ''attr_volume_ml''}" unfolding c3_def by (intro keys_set_shade_mono s2)
  have n3: "str ''attr_shade_code'' \<notin> fst ` set c2" using s2 by auto
  have m3: "map_of c3 k = (if k = str ''attr_shade_code'' then map_option (\<lambda>m. PStr (py_upper U (fst m))) (search U SHADE_PATTERN h) else map_of c2 k)" for k
    unfolding c3_def by (simp add: lookup_set_shade[OF n3])
  have d4: "distinct (map fst c4)" unfolding c4_def by (intro distinct_set_str d3)
  have s4: "fst ` set c4 \<subseteq> {str ''attr_finish'', str ''attr_shade_code'', str ''attr_grit'', str ''attr_volume_ml''}" unfolding c4_def by (intro keys_set_str_mono s3)
  have n4: "str ''attr_finish'' \<notin> fst ` set c3" using s3 by auto
  have m4: "map_of c4 k = (if k = str ''attr_finish'' then map_option PStr (first_keyword hl FINISH_KEYWORDS) else map_of c3 k)" for k
    unfolding c4_def by (simp add: lookup_set_keyword[OF keywords_nonempty(1) n4])
  have d5: "distinct (map fst c5)" unfolding c5_def by (intro distinct_set_str d4)
  have s5: "fst ` set c5 \<subseteq> {str ''attr_curing_type'', str ''attr_finish'', str ''attr_shade_code'', str ''attr_grit'', str ''attr_volume_ml''}" unfolding c5_def by (intro keys_set_str_mono s4)
  have n5: "str ''attr_curing_type'' \<notin> fst ` set c4" using s4 by auto
  have m5: "map_of c5 k = (if k = str ''attr_curing_type'' then map_option (\<lambda>v. PStr (py_upper U (replace_space_empty v))) (first_keyword hl CURING_KEYWORDS) else map_of c4 k)" for k
    unfolding c5_def by (simp add: lookup_set_keyword[OF keywords_nonempty(2) n5])
  have d6: "distinct (map fst c6)" unfolding c6_def by (intro distinct_set_str d5)
  have s6: "fst ` set c6 \<subseteq> {str ''attr_liquid_type'', str ''attr_curing_type'', str ''attr_finish'', str ''attr_shade_code'', str ''attr_grit'', str ''attr_volume_ml''}" unfolding c6_def by (intro keys_set_str_mono s5)
  have n6: "str ''attr_liquid_type'' \<notin> fst ` set c5" using s5 by auto
  have m6: "map_of c6 k = (if k = str ''attr_liquid_type'' then map_option PStr (first_keyword hl LIQUID_TYPES) else map_of c5 k)" for k
    unfolding c6_def by (simp add: lookup_set_keyword[OF keywords_nonempty(3) n6])
  have d7: "distinct (map fst c7)" unfolding c7_def by (intro distinct_set_str d6)
  have s7: "fst ` set c7 \<subseteq> {str ''attr_scent'', str ''attr_liquid_type'', str ''attr_curing_type'', str ''attr_finish'', str ''attr_shade_code'', str ''attr_grit'', str ''attr_volume_ml''}" unfolding c7_def by (intro keys_set_str_mono s6)
  have n7: "str ''attr_scent'' \<notin> fst ` set c6" using s6 by auto
  have m7: "map_of c7 k = (if k = str ''attr_scent'' then map_option PStr (first_keyword hl SCENT_KEYWORDS) else map_of c6 k)" for k
    unfolding c7_def by (simp add: lookup_set_keyword[OF keywords_nonempty(4) n7])
  have d8: "distinct (map fst c8)" unfolding c8_def by (intro distinct_case_update d7)
  have s8: "fst ` set c8 \<subseteq> {str ''attr_strength_percent'', str ''attr_scent'', str ''attr_liquid_type'', str ''attr_curing_type'', str ''attr_finish'', str ''attr_shade_code'', str ''attr_grit'', str ''attr_volume_ml''}" unfolding c8_def by (intro keys_case_update_mono s7)
  have n8: "str ''attr_strength_percent'' \<notin> fst ` set c7" using s7 by auto
  have m8: "map_of c8 k = (if k = str ''attr_strength_percent'' then map_option (\<lambda>v. PFloat (of_nat (decimal_value U v))) (first_match U STRENGTH_PATTERN h) else map_of c7 k)" for k
    unfolding c8_def by (simp add: lookup_case_update[OF n8])
  have d9: "distinct (map fst c9)" unfolding c9_def by (intro distinct_case_update d8)
  have s9: "fst ` set c9 \<subseteq> {str ''attr_length_mm'', str ''attr_strength_percent'', str ''attr_scent'', str ''attr_liquid_type'', str ''attr_curing_type'', str ''attr_finish'', str ''attr_shade_code'', str ''attr_grit'', str ''attr_volume_ml''}" unfolding c9_def by (intro keys_case_update_mono s8)
  have n9: "str ''attr_length_mm'' \<notin> fst ` set c8" using s8 by auto
  have m9: "map_of c9 k = (if k = str ''attr_length_mm'' then map_option (\<lambda>v. PFloat (of_nat (decimal_value U v))) (first_match U LENGTH_PATTERN h) else map_of c8 k)" for k
    unfolding c9_def by (simp add: lookup_case_update[OF n9])
  have d10: "distinct (map fst c10)" unfolding c10_def by (intro distinct_set_str d9)
  have s10: "fst ` set c10 \<subseteq> {str ''attr_material'', str ''attr_length_mm'', str ''attr_strength_percent'', str ''attr_scent'', str ''attr_liquid_type'', str ''attr_curing_type'', str ''attr_finish'', str ''attr_shade_code'', str ''attr_grit'', str ''attr_volume_ml''}" unfolding c10_def by (intro keys_set_str_mono s9)
  have n10: "str ''attr_material'' \<notin> fst ` set c9" using s9 by auto
  have m10: "map_of c10 k = (if k = str ''attr_material'' then map_option PStr (first_keyword hl MATERIAL_KEYWORDS) else map_of c9 k)" for k
    unfolding c10_def by (simp add: lookup_set_keyword[OF keywords_nonempty(5) n10])
  have d11: "distinct (map fst c11)" unfolding c11_def by (intro distinct_set_str d10)
  have s11: "fst ` set c11 \<subseteq> {str ''attr_shape'', str ''attr_material'', str ''attr_length_mm'', str ''attr_strength_percent'', str ''attr_scent'', str ''attr_liquid_type'', str ''attr_curing_type'', str ''attr_finish'', str ''attr_shade_code'', str ''attr_grit'', str ''attr_volume_ml''}" unfolding c11_def by (intro keys_set_str_mono s10)
  have n11: "str ''attr_shape'' \<notin> fst ` set c10" using s10 by auto
  have m11: "map_of c11 k = (if k = str ''attr_shape'' then map_option PStr (first_keyword hl SHAPE_KEYWORDS) else map_of c10 k)" for k
    unfolding c11_def by (simp add: lookup_set_keyword[OF keywords_nonempty(6) n11])
  have d12: "distinct (map fst c12)" unfolding c12_def by (intro distinct_set_str d11)
  have s12: "fst ` set c12 \<subseteq> {str ''attr_color_name'', str ''attr_shape'', str ''attr_material'', str ''attr_length_mm'', str ''attr_strength_percent'', str ''attr_scent'', str ''attr_liquid_type'', str ''attr_curing_type'', str ''attr_finish'', str ''attr_shade_code'', str ''attr_grit'', str ''attr_volume_ml''}" unfolding c12_def by (intro keys_set_str_mono s11)
  have n12: "str ''attr_color_name'' \<notin> fst ` set c11" using s11 by auto
  have m12: "map_of c12 k = (if k = str ''attr_color_name'' then map_option PStr (first_keyword hl COLOR_KEYWORDS) else map_of c11 k)" for k
    unfolding c12_def by (simp add: lookup_set_keyword[OF keywords_nonempty(7) n12])
  have d13: "distinct (map fst c13)" unfolding c13_def by (intro distinct_case_update d12)
  have s13: "fst ` set c13 \<subseteq> {str ''attr_collection'', str ''attr_color_name'', str ''attr_shape'', str ''attr_material'', str ''attr_length_mm'', str ''attr_strength_percent'', str ''attr_scent'', str ''attr_liquid_type'', str ''attr_curing_type'', str ''attr_finish'', str ''attr_shade_code'', str ''attr_grit'', str ''attr_volume_ml''}" unfolding c13_def by (intro keys_case_update_mono s12)
  have n13: "str ''attr_collection'' \<notin> fst ` set c12" using s12 by auto
  have m13: "map_of c13 k = (if k = str ''attr_collection'' then (case search U COLLECTION_PATTERN h of None \<Rightarrow> None | Some m \<Rightarrow> map_option PStr (group m 2)) else map_of c12 k)" for k
    unfolding c13_def by (simp add: lookup_case_update[OF n13] g)
  show ?thesis
    by (intro exI[of _ c13]) (simp only: e d13 m13 m12 m11 m10 m9 m8 m7 m6 m5 m4 m3 m2 m1 simp_thms)
qed

lemma extract_attributes_total: "\<exists>a. extract_attributes U name description = Inr a"
  using extract_attributes_lookup[of U name description] by blast

lemma extract_attributes_map_of:
  assumes "extract_attributes U name description = Inr a"
  shows "map_of a k =
      (if k = str ''attr_collection'' then
         (case search U COLLECTION_PATTERN (haystack_of name description) of None \<Rightarrow> None | Some m \<Rightarrow> map_option PStr (group m 2))
       else if k = str ''attr_color_name'' then map_option PStr (first_keyword (py_lower U (haystack_of name description)) COLOR_KEYWORDS)
       else if k = str ''attr_shape'' then map_option PStr (first_keyword (py_lower U (haystack_of name description)) SHAPE_KEYWORDS)
       else if k = str ''attr_material'' then map_option PStr (first_keyword (py_lower U (haystack_of name description)) MATERIAL_KEYWORDS)
       else if k = str ''attr_length_mm'' then
         map_option (\<lambda>v. PFloat (of_nat (decimal_value U v))) (first_match U LENGTH_PATTERN (haystack_of name description))
       else if k = str ''attr_strength_percent'' then
         map_option (\<lambda>v. PFloat (of_nat (decimal_value U v))) (first_match U STRENGTH_PATTERN (haystack_of name description))
       else if k = str ''attr_scent'' then map_option PStr (first_keyword (py_lower U (haystack_of name description)) SCENT_KEYWORDS)
       else if k = str ''attr_liquid_type'' then map_option PStr (first_keyword (py_lower U (haystack_of name description)) LIQUID_TYPES)
       else if k = str ''attr_curing_type'' then
         map_option (\<lambda>v. PStr (py_upper U (replace_space_empty v))) (first_keyword (py_lower U (haystack_of name description)) CURING_KEYWORDS)
       else if k = str ''attr_finish'' then map_option PStr (first_keyword (py_lower U (haystack_of name description)) FINISH_KEYWORDS)
       else if k = str ''attr_shade_code'' then
         map_option (\<lambda>m. PStr (py_upper U (fst m))) (search U SHADE_PATTERN (haystack_of name description))
       else if k = str ''attr_grit'' then
         (case first_match U GRIT_PATTERN (haystack_of name description) of None \<Rightarrow> None
          | Some v \<Rightarrow> if v = [] then None else Some (PStr v))
       else if k = str ''attr_volume_ml'' then
         map_option (\<lambda>v. PFloat (of_nat (decimal_value U v))) (first_match U VOLUME_PATTERN (haystack_of name description))
       else None)"
    and "distinct (map fst a)"
  using extract_attributes_lookup[of U name description] assms by auto

lemma curing_value_nonempty:
  "k \<in> set CURING_KEYWORDS \<Longrightarrow> py_upper U (replace_space_empty k) \<noteq> []"
proof -
  have "list_all (\<lambda>k. py_upper U (replace_space_empty k) \<noteq> []) CURING_KEYWORDS"
    by code_simp
  then show "k \<in> set CURING_KEYWORDS \<Longrightarrow> py_upper U (replace_space_empty k) \<noteq> []"
    by (simp add: list_all_iff)
qed

lemma keyword_value:
  assumes "map_option (\<lambda>v. PStr (f v)) (first_keyword t ks) = Some v"
  shows "\<exists>k. k \<in> set ks \<and> sublist k t \<and> v = PStr (f k)"
  using assms first_keyword_mem by (cases "first_keyword t ks") auto

text \<open>Every entry of the result: its key is one of the thirteen, and its value has the key's type.\<close>

lemma extract_attributes_entry:
  assumes a: "extract_attributes U name description = Inr a"
    and kv: "map_of a k = Some v"
  shows "k \<in> {str ''attr_volume_ml'', str ''attr_strength_percent'', str ''attr_length_mm''} \<and> (\<exists>x. v = PFloat x)
    \<or> k \<in> {str ''attr_grit'', str ''attr_shade_code'', str ''attr_finish'', str ''attr_curing_type'',
          str ''attr_liquid_type'', str ''attr_scent'', str ''attr_material'', str ''attr_shape'',
          str ''attr_color_name'', str ''attr_collection''} \<and> (\<exists>s. v = PStr s \<and> s \<noteq> [])"
proof -
  let ?h = "haystack_of name description"
  let ?hl = "py_lower U ?h"
  note look = extract_attributes_map_of(1)[OF a, of k]
  consider
      (collection) "k = str ''attr_collection''" | (color) "k = str ''attr_color_name''"
    | (shape) "k = str ''attr_shape''" | (material) "k = str ''attr_material''"
    | (len) "k = str ''attr_length_mm''" | (strength) "k = str ''attr_strength_percent''"
    | (scent) "k = str ''attr_scent''" | (liquid) "k = str ''attr_liquid_type''"
    | (curing) "k = str ''attr_curing_type''" | (finish) "k = str ''attr_finish''"
    | (shade) "k = str ''attr_shade_code''" | (grit) "k = str ''attr_grit''"
    | (volume) "k = str ''attr_volume_ml''"
    | (other) "k \<notin> {str ''attr_collection'', str ''attr_color_name'', str ''attr_shape'',
        str ''attr_material'', str ''attr_length_mm'', str ''attr_strength_percent'',
        str ''attr_scent'', str ''attr_liquid_type'', str ''attr_curing_type'', str ''attr_finish'',
        str ''attr_shade_code'', str ''attr_grit'', str ''attr_volume_ml''}"
    by blast
  then show ?thesis
  proof cases
    case collection
    with look kv have s: "(case search U COLLECTION_PATTERN ?h of None \<Rightarrow> None
        | Some m \<Rightarrow> map_option PStr (group m 2)) = Some v" by simp
    then obtain m where m: "search U COLLECTION_PATTERN ?h = Some m" "map_option PStr (group m 2) = Some v"
      by (cases "search U COLLECTION_PATTERN ?h") auto
    from collection_search_Some[OF m(1)] obtain tok where
      t: "group m 2 = Some tok" "collection_occurrence U ?h tok" by blast
    from t(2) have "3 \<le> length tok" unfolding collection_occurrence_def by blast
    then have "tok \<noteq> []" by auto
    with m(2) t(1) collection show ?thesis by auto
  next
    case color
    with look kv have "map_option (\<lambda>v. PStr (id v)) (first_keyword ?hl COLOR_KEYWORDS) = Some v" by simp
    from keyword_value[OF this] keywords_nonempty(7) color show ?thesis by auto
  next
    case shape
    with look kv have "map_option (\<lambda>v. PStr (id v)) (first_keyword ?hl SHAPE_KEYWORDS) = Some v" by simp
    from keyword_value[OF this] keywords_nonempty(6) shape show ?thesis by auto
  next
    case material
    with look kv have "map_option (\<lambda>v. PStr (id v)) (first_keyword ?hl MATERIAL_KEYWORDS) = Some v" by simp
    from keyword_value[OF this] keywords_nonempty(5) material show ?thesis by auto
  next
    case len
    with look kv show ?thesis by auto
  next
    case strength
    with look kv show ?thesis by auto
  next
    case scent
    with look kv have "map_option (\<lambda>v. PStr (id v)) (first_keyword ?hl SCENT_KEYWORDS) = Some v" by simp
    from keyword_value[OF this] keywords_nonempty(4) scent show ?thesis by auto
  next
    case liquid
    with look kv have "map_option (\<lambda>v. PStr (id v)) (first_keyword ?hl LIQUID_TYPES) = Some v" by simp
    from keyword_value[OF this] keywords_nonempty(3) liquid show ?thesis by auto
  next
    case curing
    with look kv have "map_option (\<lambda>v. PStr (py_upper U (replace_space_empty v)))
        (first_keyword ?hl CURING_KEYWORDS) = Some v" by simp
    from keyword_value[OF this] curing_value_nonempty curing show ?thesis by auto
  next
    case finish
    with look kv have "map_option (\<lambda>v. PStr (id v)) (first_keyword ?hl FINISH_KEYWORDS) = Some v" by simp
    from keyword_value[OF this] keywords_nonempty(1) finish show ?thesis by auto
  next
    case shade
    with look kv obtain m where m: "search U SHADE_PATTERN ?h = Some m" "v = PStr (py_upper U (fst m))"
      by auto
    from shade_match_head[OF m(1)] have "py_upper U (fst m) \<noteq> []" by (simp add: py_upper_nonempty)
    with m(2) shade show ?thesis by auto
  next
    case grit
    with look kv have "(case first_match U GRIT_PATTERN ?h of None \<Rightarrow> None
          | Some v \<Rightarrow> if v = [] then None else Some (PStr v)) = Some v" by simp
    then have "\<exists>s. v = PStr s \<and> s \<noteq> []"
      by (cases "first_match U GRIT_PATTERN ?h") (auto split: if_splits)
    with grit show ?thesis by auto
  next
    case volume
    with look kv show ?thesis by auto
  next
    case other
    with look kv show ?thesis by auto
  qed
qed

subsection \<open>The services\<close>

lemma dict_get_update:
  "dict_get (AList.update k v d) k' dflt = (if k' = k then v else dict_get d k' dflt)"
  by (simp add: dict_get_def update_conv')

lemma es_get_index: "es_get (es_index i d doc store) i d = Some doc"
  by (simp add: es_get_def es_index_def update_conv')



subsection \<open>Dictionary updates\<close>

lemma dict_update_Cons: "dict_update d ((k, v) # e) = dict_update (AList.update k v d) e"
  by (simp add: dict_update_def)

lemma map_of_dict_update:
  "distinct (map fst e) \<Longrightarrow>
     map_of (dict_update d e) k = (case map_of e k of None \<Rightarrow> map_of d k | Some v \<Rightarrow> Some v)"
proof (induction e arbitrary: d)
  case Nil
  then show ?case by (simp add: dict_update_def)
next
  case (Cons x e)
  obtain k' v' where x: "x = (k', v')" by (cases x)
  from Cons.prems x have d: "distinct (map fst e)" and n: "k' \<notin> fst ` set e" by auto
  from n have "map_of e k' = None" by (simp add: map_of_eq_None_iff)
  with Cons.IH[OF d, of "AList.update k' v' d"] x show ?case
    by (auto simp: dict_update_Cons update_conv' split: option.splits)
qed

lemma distinct_dict_update: "distinct (map fst d) \<Longrightarrow> distinct (map fst (dict_update d e))"
  unfolding dict_update_def
  by (induction e arbitrary: d) (auto simp: distinct_update)

lemma map_of_drop_none:
  "distinct (map fst d) \<Longrightarrow> map_of d k = Some v \<Longrightarrow> v \<noteq> PNone \<Longrightarrow> map_of (drop_none d) k = Some v"
  unfolding drop_none_def
  by (induction d) (auto simp: rev_image_eqI)

lemma distinct_drop_none: "distinct (map fst d) \<Longrightarrow> distinct (map fst (drop_none d))"
  unfolding drop_none_def by (simp add: distinct_map_filter)

lemma extract_attributes_any_Inr:
  assumes "extract_attributes_any U name description = Inr a"
  shows "distinct (map fst a)"
    and "map_of a k = Some w \<Longrightarrow> k \<noteq> str ''updated_at''"
proof -
  from assms obtain n d where e: "extract_attributes U n (Some d) = Inr a"
    by (auto simp: extract_attributes_any_def bind_err_Inr_iff)
  from extract_attributes_map_of(2)[OF e] show "distinct (map fst a)" .
  show "k \<noteq> str ''updated_at''" if "map_of a k = Some w"
    using extract_attributes_entry[OF e that] by auto
qed

subsection \<open>The analytics\<close>














section \<open>The claims\<close>

text \<open>
  C4.  For the catalogue example, the name ``Oja semipermanenta Colectia Glam 15 ml #A021 Roz
  Lucios'' with the description ``Finisaj glitter, UV/LED'', the extractor returns a mapping
  with volume 15.0, a shade code containing ``A021'', curing type ``UV/LED'' and collection
  ``Glam'', whatever the Unicode database says about non-ASCII characters.
\<close>

theorem extract_attributes_example:
  "\<exists>a. extract_attributes U (str ''Oja semipermanenta Colectia Glam 15 ml #A021 Roz Lucios'')
          (Some (str ''Finisaj glitter, UV/LED'')) = Inr a
     \<and> map_of a (str ''attr_volume_ml'') = Some (PFloat 15)
     \<and> (\<exists>s. map_of a (str ''attr_shade_code'') = Some (PStr s) \<and> sublist (str ''A021'') s)
     \<and> map_of a (str ''attr_curing_type'') = Some (PStr (str ''UV/LED''))
     \<and> map_of a (str ''attr_collection'') = Some (PStr (str ''Glam''))"
proof -
  define h where "h = str ''Oja semipermanenta Colectia Glam 15 ml #A021 Roz Lucios Finisaj glitter, UV/LED''"
  have hs: "haystack_of (str ''Oja semipermanenta Colectia Glam 15 ml #A021 Roz Lucios'')
          (Some (str ''Finisaj glitter, UV/LED'')) = h"
    unfolding h_def by code_simp
  have v: "first_match U VOLUME_PATTERN h = Some (str ''15'')"
    unfolding h_def by code_simp
  have vv: "decimal_value U (str ''15'') = 15" by code_simp
  have sh: "map_option (\<lambda>m. PStr (py_upper U (fst m))) (search U SHADE_PATTERN h) = Some (PStr (str ''#A021''))"
    unfolding h_def by code_simp
  have sub: "sublist (str ''A021'') (str ''#A021'')" by code_simp
  have cu: "map_option (\<lambda>v. PStr (py_upper U (replace_space_empty v))) (first_keyword (py_lower U h) CURING_KEYWORDS)
      = Some (PStr (str ''UV/LED''))"
    unfolding h_def by code_simp
  have co: "(case search U COLLECTION_PATTERN h of None \<Rightarrow> None | Some m \<Rightarrow> map_option PStr (group m 2))
      = Some (PStr (str ''Glam''))"
    unfolding h_def by code_simp
  obtain a where a: "extract_attributes U (str ''Oja semipermanenta Colectia Glam 15 ml #A021 Roz Lucios'')
          (Some (str ''Finisaj glitter, UV/LED'')) = Inr a"
    using extract_attributes_total by blast
  note look = extract_attributes_map_of(1)[OF a, unfolded hs]
  have 1: "map_of a (str ''attr_volume_ml'') = Some (PFloat 15)"
    by (simp add: look v vv)
  have 2: "map_of a (str ''attr_shade_code'') = Some (PStr (str ''#A021''))"
    by (simp add: look sh)
  have 3: "map_of a (str ''attr_curing_type'') = Some (PStr (str ''UV/LED''))"
    by (simp add: look cu)
  have 4: "map_of a (str ''attr_collection'') = Some (PStr (str ''Glam''))"
    by (simp add: look co)
  from a 1 2 3 4 sub show ?thesis by blast
qed



text \<open>
  C5.  As stated (every text containing the marker gets the text after it, up to the next
  digit or the end, as its collection) the claim fails: ``Colectia Glam Rock'' contains the
  marker and gets no collection at all, because the pattern accepts a single token only.
\<close>

theorem collection_marker_counterexample:
  "extract_attributes ascii_ucd (str ''Colectia Glam Rock'') None = Inr []
   \<and> sublist (str ''colectia'') (py_lower ascii_ucd (haystack_of (str ''Colectia Glam Rock'') None))"
  by code_simp

text \<open>
  C5, amended.  The collection attribute is present exactly when the text holds an occurrence
  of the marker ``colectia'' or ``colectiei'' (in any letter case), followed by white space,
  by one token of 3 to 30 word characters or hyphens, and then by white space and a digit
  or by nothing but white space up to the end of the text; its value is the token of such an
  occurrence.
\<close>

theorem collection_rule:
  "\<exists>a. extract_attributes U name description = Inr a \<and>
     (case map_of a (str ''attr_collection'') of
        None \<Rightarrow> \<nexists>tok. collection_occurrence U (haystack_of name description) tok
      | Some v \<Rightarrow> \<exists>tok. collection_occurrence U (haystack_of name description) tok \<and> v = PStr tok)"
proof -
  obtain a where a: "extract_attributes U name description = Inr a"
    using extract_attributes_total by blast
  have look: "map_of a (str ''attr_collection'') =
      (case search U COLLECTION_PATTERN (haystack_of name description) of None \<Rightarrow> None
       | Some m \<Rightarrow> map_option PStr (group m 2))"
    by (simp add: extract_attributes_map_of(1)[OF a])
  show ?thesis
  proof (cases "search U COLLECTION_PATTERN (haystack_of name description)")
    case None
    with look collection_search_None[OF None] a show ?thesis by simp
  next
    case (Some m)
    from collection_search_Some[OF Some] obtain tok where
      "group m 2 = Some tok" "collection_occurrence U (haystack_of name description) tok" by blast
    with look Some a show ?thesis by auto
  qed
qed

text \<open>
  C8.  A key whose pattern finds no match in the combined text, or none of whose keywords
  occurs in the case-folded text, is absent from the result, and so is every other key.  A
  key that is present never carries \<open>None\<close> or an empty string, and a float it carries is
  the number written by the digits its pattern matched, never a stand-in.
\<close>

theorem extract_attributes_sparse:
  fixes U name description
  defines "h \<equiv> haystack_of name description"
  defines "hl \<equiv> py_lower U h"
  shows "\<exists>a. extract_attributes U name description = Inr a
     \<and> (search U VOLUME_PATTERN h = None \<longrightarrow> map_of a (str ''attr_volume_ml'') = None)
     \<and> (search U GRIT_PATTERN h = None \<longrightarrow> map_of a (str ''attr_grit'') = None)
     \<and> (search U SHADE_PATTERN h = None \<longrightarrow> map_of a (str ''attr_shade_code'') = None)
     \<and> (search U STRENGTH_PATTERN h = None \<longrightarrow> map_of a (str ''attr_strength_percent'') = None)
     \<and> (search U LENGTH_PATTERN h = None \<longrightarrow> map_of a (str ''attr_length_mm'') = None)
     \<and> (search U COLLECTION_PATTERN h = None \<longrightarrow> map_of a (str ''attr_collection'') = None)
     \<and> ((\<forall>k \<in> set FINISH_KEYWORDS. \<not> sublist k hl) \<longrightarrow> map_of a (str ''attr_finish'') = None)
     \<and> ((\<forall>k \<in> set CURING_KEYWORDS. \<not> sublist k hl) \<longrightarrow> map_of a (str ''attr_curing_type'') = None)
     \<and> ((\<forall>k \<in> set LIQUID_TYPES. \<not> sublist k hl) \<longrightarrow> map_of a (str ''attr_liquid_type'') = None)
     \<and> ((\<forall>k \<in> set SCENT_KEYWORDS. \<not> sublist k hl) \<longrightarrow> map_of a (str ''attr_scent'') = None)
     \<and> ((\<forall>k \<in> set MATERIAL_KEYWORDS. \<not> sublist k hl) \<longrightarrow> map_of a (str ''attr_material'') = None)
     \<and> ((\<forall>k \<in> set SHAPE_KEYWORDS. \<not> sublist k hl) \<longrightarrow> map_of a (str ''attr_shape'') = None)
     \<and> ((\<forall>k \<in> set COLOR_KEYWORDS. \<not> sublist k hl) \<longrightarrow> map_of a (str ''attr_color_name'') = None)
     \<and> (\<forall>k v. map_of a k = Some v \<longrightarrow> v \<noteq> PNone \<and> v \<noteq> PStr [])
     \<and> (\<forall>x. map_of a (str ''attr_volume_ml'') = Some (PFloat x) \<longrightarrow>
           (\<exists>s. first_match U VOLUME_PATTERN h = Some s \<and> s \<noteq> [] \<and> x = of_nat (decimal_value U s)))
     \<and> (\<forall>x. map_of a (str ''attr_strength_percent'') = Some (PFloat x) \<longrightarrow>
           (\<exists>s. first_match U STRENGTH_PATTERN h = Some s \<and> s \<noteq> [] \<and> x = of_nat (decimal_value U s)))
     \<and> (\<forall>x. map_of a (str ''attr_length_mm'') = Some (PFloat x) \<longrightarrow>
           (\<exists>s. first_match U LENGTH_PATTERN h = Some s \<and> s \<noteq> [] \<and> x = of_nat (decimal_value U s)))"
proof -
  obtain a where a: "extract_attributes U name description = Inr a"
    using extract_attributes_total by blast
  note look = extract_attributes_map_of(1)[OF a, folded h_def, folded hl_def]
  have nk: "first_keyword hl ks = None" if "\<forall>k \<in> set ks. \<not> sublist k hl" for ks
    using that by (induction ks) auto
  have p: "search U VOLUME_PATTERN h = None \<longrightarrow> map_of a (str ''attr_volume_ml'') = None"
    "search U GRIT_PATTERN h = None \<longrightarrow> map_of a (str ''attr_grit'') = None"
    "search U SHADE_PATTERN h = None \<longrightarrow> map_of a (str ''attr_shade_code'') = None"
    "search U STRENGTH_PATTERN h = None \<longrightarrow> map_of a (str ''attr_strength_percent'') = None"
    "search U LENGTH_PATTERN h = None \<longrightarrow> map_of a (str ''attr_length_mm'') = None"
    "search U COLLECTION_PATTERN h = None \<longrightarrow> map_of a (str ''attr_collection'') = None"
    by (simp_all add: look first_match_def)
  have q: "(\<forall>k \<in> set FINISH_KEYWORDS. \<not> sublist k hl) \<longrightarrow> map_of a (str ''attr_finish'') = None"
    "(\<forall>k \<in> set CURING_KEYWORDS. \<not> sublist k hl) \<longrightarrow> map_of a (str ''attr_curing_type'') = None"
    "(\<forall>k \<in> set LIQUID_TYPES. \<not> sublist k hl) \<longrightarrow> map_of a (str ''attr_liquid_type'') = None"
    "(\<forall>k \<in> set SCENT_KEYWORDS. \<not> sublist k hl) \<longrightarrow> map_of a (str ''attr_scent'') = None"
    "(\<forall>k \<in> set MATERIAL_KEYWORDS. \<not> sublist k hl) \<longrightarrow> map_of a (str ''attr_material'') = None"
    "(\<forall>k \<in> set SHAPE_KEYWORDS. \<not> sublist k hl) \<longrightarrow> map_of a (str ''attr_shape'') = None"
    "(\<forall>k \<in> set COLOR_KEYWORDS. \<not> sublist k hl) \<longrightarrow> map_of a (str ''attr_color_name'') = None"
    using nk by (simp_all add: look)
  have r: "\<forall>k v. map_of a k = Some v \<longrightarrow> v \<noteq> PNone \<and> v \<noteq> PStr []"
    using extract_attributes_entry[OF a] by fastforce
  have f: "\<forall>x. map_of a (str ''attr_volume_ml'') = Some (PFloat x) \<longrightarrow>
           (\<exists>s. first_match U VOLUME_PATTERN h = Some s \<and> s \<noteq> [] \<and> x = of_nat (decimal_value U s))"
    "\<forall>x. map_of a (str ''attr_strength_percent'') = Some (PFloat x) \<longrightarrow>
           (\<exists>s. first_match U STRENGTH_PATTERN h = Some s \<and> s \<noteq> [] \<and> x = of_nat (decimal_value U s))"
    "\<forall>x. map_of a (str ''attr_length_mm'') = Some (PFloat x) \<longrightarrow>
           (\<exists>s. first_match U LENGTH_PATTERN h = Some s \<and> s \<noteq> [] \<and> x = of_nat (decimal_value U s))"
    using volume_digits[of U h] strength_digits[of U h] length_digits[of U h]
    by (auto simp: look)
  from a p q r f show ?thesis by (intro exI[of _ a] conjI)
qed

theorem extract_attributes_sparse_witness:
  "\<exists>a. extract_attributes ascii_ucd (str ''Pila 80 mm'') None = Inr a
     \<and> map_of a (str ''attr_volume_ml'') = None
     \<and> map_of a (str ''attr_finish'') = None
     \<and> map_of a (str ''attr_length_mm'') = Some (PFloat 80)"
proof -
  define h where "h = haystack_of (str ''Pila 80 mm'') None"
  have n1: "search ascii_ucd VOLUME_PATTERN h = None" unfolding h_def by code_simp
  have n2: "\<forall>k \<in> set FINISH_KEYWORDS. \<not> sublist k (py_lower ascii_ucd h)"
    unfolding h_def by code_simp
  from extract_attributes_sparse[of ascii_ucd "str ''Pila 80 mm''" None, folded h_def]
  obtain a where a: "extract_attributes ascii_ucd (str ''Pila 80 mm'') None = Inr a"
    and v: "search ascii_ucd VOLUME_PATTERN h = None \<longrightarrow> map_of a (str ''attr_volume_ml'') = None"
    and f: "(\<forall>k \<in> set FINISH_KEYWORDS. \<not> sublist k (py_lower ascii_ucd h)) \<longrightarrow>
        map_of a (str ''attr_finish'') = None"
    by (elim exE conjE) (rule that, assumption+)
  have "extract_attributes ascii_ucd (str ''Pila 80 mm'') None = Inr [(str ''attr_length_mm'', PFloat 80)]"
    by code_simp
  with a have "map_of a (str ''attr_length_mm'') = Some (PFloat 80)" by auto
  with a v f n1 n2 show ?thesis by blast
qed

text \<open>
  C10.  The extractor is total: for every name and every description (absent, empty or not)
  it returns a mapping and raises nothing.  Every key of the mapping is one of the thirteen
  attribute keys, each at most once; the values of \<open>attr_volume_ml\<close>,
  \<open>attr_strength_percent\<close> and \<open>attr_length_mm\<close> are floats, and the values of all other
  keys are non-empty strings.
\<close>

theorem extract_attributes_total_typed:
  "\<exists>a. extract_attributes U name description = Inr a \<and> distinct (map fst a) \<and>
     (\<forall>k v. map_of a k = Some v \<longrightarrow>
        k \<in> {str ''attr_volume_ml'', str ''attr_strength_percent'', str ''attr_length_mm''} \<and>
          (\<exists>x. v = PFloat x)
        \<or> k \<in> {str ''attr_grit'', str ''attr_shade_code'', str ''attr_finish'', str ''attr_curing_type'',
          str ''attr_liquid_type'', str ''attr_scent'', str ''attr_material'', str ''attr_shape'',
          str ''attr_color_name'', str ''attr_collection''} \<and> (\<exists>s. v = PStr s \<and> s \<noteq> []))"
proof -
  obtain a where a: "extract_attributes U name description = Inr a"
    using extract_attributes_total by blast
  from extract_attributes_map_of(2)[OF a] have "distinct (map fst a)" .
  with a extract_attributes_entry[OF a] show ?thesis by blast
qed

theorem extract_attributes_total_typed_witness:
  "\<exists>a x s. extract_attributes ascii_ucd (str ''Gel UV 15 ml'') None = Inr a
     \<and> map_of a (str ''attr_volume_ml'') = Some (PFloat x)
     \<and> map_of a (str ''attr_curing_type'') = Some (PStr s) \<and> s \<noteq> []"
proof -
  from extract_attributes_total_typed[of ascii_ucd "str ''Gel UV 15 ml''" None]
  obtain a where a: "extract_attributes ascii_ucd (str ''Gel UV 15 ml'') None = Inr a"
    and t: "\<And>k v. map_of a k = Some v \<Longrightarrow>
        k \<in> {str ''attr_volume_ml'', str ''attr_strength_percent'', str ''attr_length_mm''} \<and>
          (\<exists>x. v = PFloat x)
        \<or> k \<in> {str ''attr_grit'', str ''attr_shade_code'', str ''attr_finish'', str ''attr_curing_type'',
          str ''attr_liquid_type'', str ''attr_scent'', str ''attr_material'', str ''attr_shape'',
          str ''attr_color_name'', str ''attr_collection''} \<and> (\<exists>s. v = PStr s \<and> s \<noteq> [])"
    by blast
  have "extract_attributes ascii_ucd (str ''Gel UV 15 ml'') None =
      Inr [(str ''attr_volume_ml'', PFloat 15), (str ''attr_curing_type'', PStr (str ''UV''))]"
    by code_simp
  with a have a': "a = [(str ''attr_volume_ml'', PFloat 15), (str ''attr_curing_type'', PStr (str ''UV''))]"
    by simp
  have v: "map_of a (str ''attr_volume_ml'') = Some (PFloat 15)"
    and c: "map_of a (str ''attr_curing_type'') = Some (PStr (str ''UV''))"
    unfolding a' by simp_all
  from t[OF v] obtain x where "PFloat 15 = PFloat x" by auto
  moreover from t[OF c] obtain s where "PStr (str ''UV'') = PStr s" "s \<noteq> []" by auto
  ultimately show ?thesis using a v c by auto
qed

text \<open>
  C2.  Whenever \<open>qty_damaged\<close> exceeds \<open>qty_total_in_shipment\<close> (each read with the
  default 0 of the code when absent), \<open>create_incident\<close> raises the \<open>ValueError\<close> with its
  message and leaves the store exactly as it was.
\<close>

theorem create_incident_rejects_excess:
  assumes "number_of (dict_get payload (str ''qty_damaged'') (PInt 0)) = Some d"
    and "number_of (dict_get payload (str ''qty_total_in_shipment'') (PInt 0)) = Some t"
    and "d > t"
  shows "create_incident E store payload =
     (store, Inl (ValueError (str ''qty_damaged cannot exceed qty_total_in_shipment'')))"
proof -
  define body1 where "body1 = (if \<not> truthy (dict_get payload (str ''incident_id'') PNone)
                  then AList.update (str ''incident_id'') (PStr (str ''INC-'' @ uuid4_hex12 E)) payload
                  else payload)"
  define body2 where "body2 = (case dict_get body1 (str ''damage_type'') PNone of
                    PStr s \<Rightarrow> AList.update (str ''damage_type'') (PList [dict_get body1 (str ''damage_type'') PNone]) body1
                  | _ \<Rightarrow> body1)"
  have 1: "dict_get body1 k dflt = dict_get payload k dflt" if "k \<noteq> str ''incident_id''" for k dflt
    using that by (simp add: body1_def dict_get_update)
  have 2: "dict_get body2 k dflt = dict_get body1 k dflt" if "k \<noteq> str ''damage_type''" for k dflt
    using that by (simp add: body2_def dict_get_update split: pyval.splits)
  have qd: "dict_get body2 (str ''qty_damaged'') (PInt 0) = dict_get payload (str ''qty_damaged'') (PInt 0)"
    by (simp add: 1 2)
  have qt: "dict_get body2 (str ''qty_total_in_shipment'') (PInt 0)
      = dict_get payload (str ''qty_total_in_shipment'') (PInt 0)"
    by (simp add: 1 2)
  have "py_gt E (dict_get body2 (str ''qty_damaged'') (PInt 0))
      (dict_get body2 (str ''qty_total_in_shipment'') (PInt 0)) = Inr True"
    unfolding qd qt using assms by (simp add: py_gt_def)
  then show ?thesis
    unfolding create_incident_def Let_def body1_def[symmetric] body2_def[symmetric] by simp
qed

theorem create_incident_rejects_excess_witness:
  "create_incident example_env []
       [(str ''supplier_id'', PStr (str ''SUP-1'')),
        (str ''qty_total_in_shipment'', PInt 100), (str ''qty_damaged'', PInt 150)]
     = ([], Inl (ValueError (str ''qty_damaged cannot exceed qty_total_in_shipment'')))"
  by (rule create_incident_rejects_excess[where d = 150 and t = 100]) (simp_all add: dict_get_def)




text \<open>
  C6.  As stated (for every payload, on every key collision the override value appears) the
  claim fails for an override whose value is \<open>None\<close>: the service drops it, and the
  text-derived value is stored and returned.
\<close>

theorem upsert_product_none_override_counterexample:
  "snd (upsert_product example_env []
      [(str ''sku'', PStr (str ''S1'')), (str ''name'', PStr (str ''Gel 15 ml'')),
       (str ''attributes'', PDict [(str ''attr_volume_ml'', PNone)])])
     = Inr [(str ''sku'', PStr (str ''S1'')), (str ''indexed'', PBool True),
            (str ''attributes'', PDict [(str ''attr_volume_ml'', PFloat 15)]), (str ''url'', PNone)]
   \<and> es_get (fst (upsert_product example_env []
      [(str ''sku'', PStr (str ''S1'')), (str ''name'', PStr (str ''Gel 15 ml'')),
       (str ''attributes'', PDict [(str ''attr_volume_ml'', PNone)])]))
        (str ''products'') (PStr (str ''S1''))
     = Some [(str ''sku'', PStr (str ''S1'')), (str ''name'', PStr (str ''Gel 15 ml'')),
             (str ''attr_volume_ml'', PFloat 15), (str ''updated_at'', PStr (str ''2025-05-10T12:00:00''))]"
  by code_simp

text \<open>
  C6, amended.  For every product payload that \<open>upsert_product\<close> accepts, every
  caller-supplied attribute override whose value is not \<open>None\<close> wins over the text-derived
  value of the same key: the override value appears in the stored document and in the
  returned attributes.  (An override with value \<open>None\<close> is dropped.)
\<close>

theorem upsert_product_override_wins:
  fixes E store payload
  defines "base_doc \<equiv> drop_none payload"
  defines "text_derived \<equiv> extract_attributes_any (unicode E)
      (dict_get base_doc (str ''name'') (PStr []))
      (py_or (dict_get base_doc (str ''description_html'') PNone)
             (dict_get base_doc (str ''description_short'') PNone))"
  assumes ok: "upsert_product E store payload = (store', Inr r)"
    and attrs: "map_of payload (str ''attributes'') = Some (PDict overrides)"
      "distinct (map fst overrides)"
    and ov: "map_of overrides k = Some v" "v \<noteq> PNone"
    and collision: "text_derived = Inr derived" "map_of derived k = Some w"
  shows "\<exists>sku_id document returned.
       map_of r (str ''sku'') = Some sku_id
     \<and> es_get store' (products_index E) sku_id = Some document
     \<and> map_of document k = Some v
     \<and> map_of r (str ''attributes'') = Some (PDict returned)
     \<and> map_of returned k = Some v"
proof -
  define merged where "merged = dict_update derived (drop_none overrides)"
  define doc where "doc = AList.update (str ''updated_at'') (PStr (now_iso E))
      (dict_update (AList.delete (str ''attributes'') base_doc) merged)"
  from ok obtain sku_id where sk: "map_of base_doc (str ''sku'') = Some sku_id"
    unfolding upsert_product_def Let_def base_doc_def[symmetric]
    by (cases "map_of base_doc (str ''sku'')") auto
  have items: "dict_items (dict_get payload (str ''attributes'') (PDict [])) = Inr overrides"
    by (simp add: dict_items_def dict_get_def attrs(1))
  from ok have st: "store' = es_index (products_index E) sku_id doc store"
    and r: "\<exists>u. r = [(str ''sku'', sku_id), (str ''indexed'', PBool True),
                      (str ''attributes'', PDict merged), (str ''url'', u)]"
    unfolding upsert_product_def Let_def base_doc_def[symmetric] sk option.case
      text_derived_def[symmetric] collision(1) sum.case items merged_def[symmetric] doc_def[symmetric]
    by (auto split: sum.splits)
  have dd: "distinct (map fst derived)"
    using extract_attributes_any_Inr(1) collision(1) unfolding text_derived_def by blast
  have ku: "k \<noteq> str ''updated_at''"
    using extract_attributes_any_Inr(2) collision unfolding text_derived_def by blast
  have "map_of (drop_none overrides) k = Some v"
    using attrs(2) ov by (rule map_of_drop_none)
  then have mk: "map_of merged k = Some v"
    unfolding merged_def by (simp add: map_of_dict_update distinct_drop_none attrs(2))
  have dm: "distinct (map fst merged)"
    unfolding merged_def by (rule distinct_dict_update) (rule dd)
  have "map_of doc k = Some v"
    unfolding doc_def using ku mk by (simp add: update_conv' map_of_dict_update dm)
  moreover have "es_get store' (products_index E) sku_id = Some doc"
    unfolding st by (rule es_get_index)
  moreover from r have "map_of r (str ''sku'') = Some sku_id"
    "map_of r (str ''attributes'') = Some (PDict merged)" by auto
  ultimately show ?thesis using mk by blast
qed

theorem upsert_product_override_wins_witness:
  "\<exists>document returned.
      es_get (fst (upsert_product example_env []
        [(str ''sku'', PStr (str ''S1'')), (str ''name'', PStr (str ''Gel 15 ml'')),
         (str ''attributes'', PDict [(str ''attr_volume_ml'', PFloat 30)])]))
        (str ''products'') (PStr (str ''S1'')) = Some document
    \<and> map_of document (str ''attr_volume_ml'') = Some (PFloat 30)
    \<and> map_of (projr (snd (upsert_product example_env []
        [(str ''sku'', PStr (str ''S1'')), (str ''name'', PStr (str ''Gel 15 ml'')),
         (str ''attributes'', PDict [(str ''attr_volume_ml'', PFloat 30)])]))) (str ''attributes'')
        = Some (PDict returned)
    \<and> map_of returned (str ''attr_volume_ml'') = Some (PFloat 30)"
proof -
  define payload where "payload =
        [(str ''sku'', PStr (str ''S1'')), (str ''name'', PStr (str ''Gel 15 ml'')),
         (str ''attributes'', PDict [(str ''attr_volume_ml'', PFloat 30)])]"
  define r where "r = [(str ''sku'', PStr (str ''S1'')), (str ''indexed'', PBool True),
            (str ''attributes'', PDict [(str ''attr_volume_ml'', PFloat 30)]), (str ''url'', PNone)]"
  have s: "snd (upsert_product example_env [] payload) = Inr r"
    unfolding payload_def r_def by code_simp
  then have ok: "upsert_product example_env [] payload = (fst (upsert_product example_env [] payload), Inr r)"
    by (metis prod.collapse)
  have a: "map_of payload (str ''attributes'') = Some (PDict [(str ''attr_volume_ml'', PFloat 30)])"
    unfolding payload_def by simp
  have d: "extract_attributes_any (unicode example_env)
      (dict_get (drop_none payload) (str ''name'') (PStr []))
      (py_or (dict_get (drop_none payload) (str ''description_html'') PNone)
             (dict_get (drop_none payload) (str ''description_short'') PNone))
      = Inr [(str ''attr_volume_ml'', PFloat 15)]"
    unfolding payload_def by code_simp
  have idx: "products_index example_env = str ''products''"
    by (simp add: example_env_def)
  from upsert_product_override_wins[OF ok a _ _ _ d, of "str ''attr_volume_ml''" "PFloat 30" "PFloat 15"]
  obtain sku_id document returned where
    "map_of r (str ''sku'') = Some sku_id"
    "es_get (fst (upsert_product example_env [] payload)) (products_index example_env) sku_id = Some document"
    "map_of document (str ''attr_volume_ml'') = Some (PFloat 30)"
    "map_of r (str ''attributes'') = Some (PDict returned)"
    "map_of returned (str ''attr_volume_ml'') = Some (PFloat 30)"
    by auto
  then have "es_get (fst (upsert_product example_env [] payload)) (str ''products'') (PStr (str ''S1''))
      = Some document
    \<and> map_of document (str ''attr_volume_ml'') = Some (PFloat 30)
    \<and> map_of (projr (snd (upsert_product example_env [] payload))) (str ''attributes'') = Some (PDict returned)
    \<and> map_of returned (str ''attr_volume_ml'') = Some (PFloat 30)"
    using idx by (simp add: s r_def)
  then show ?thesis unfolding payload_def by blast
qed




end
